theory Spec2Isabelle
  imports Main "HOL-Library.AList"
begin

section \<open>Strings\<close>

text \<open>
  JavaScript strings are modelled as \<^typ>\<open>string\<close>. The case maps below are those of
  JavaScript on ASCII text: the letters \<^verbatim>\<open>A\<close> to \<^verbatim>\<open>Z\<close> and \<^verbatim>\<open>a\<close> to
  \<^verbatim>\<open>z\<close> change case, every other ASCII character is unchanged. The
  \<^verbatim>\<open>toLocale...\<close> variants are taken in a locale that has no casing rules of its
  own for these letters (the Turkic locales have: they pair \<^verbatim>\<open>I\<close> and \<^verbatim>\<open>i\<close>
  with letters outside ASCII). On a character that is not ASCII the maps of JavaScript
  can change the character or give several characters; the model leaves it as it is, so
  what is proved about keys is stated for ASCII names, \<open>isASCII\<close>.
\<close>

definition toLowerCaseChar :: "char \<Rightarrow> char" where
  "toLowerCaseChar c =
     (let n = (of_char c :: nat) in if 65 \<le> n \<and> n \<le> 90 then char_of (n + 32) else c)"

definition toUpperCaseChar :: "char \<Rightarrow> char" where
  "toUpperCaseChar c =
     (let n = (of_char c :: nat) in if 97 \<le> n \<and> n \<le> 122 then char_of (n - 32) else c)"

definition toLowerCase :: "string \<Rightarrow> string" where
  "toLowerCase s = map toLowerCaseChar s"

definition toLocaleLowerCase :: "string \<Rightarrow> string" where
  "toLocaleLowerCase s = map toLowerCaseChar s"

definition toLocaleUpperCase :: "string \<Rightarrow> string" where
  "toLocaleUpperCase s = map toUpperCaseChar s"

definition isASCII :: "string \<Rightarrow> bool" where
  "isASCII s = list_all (\<lambda>c. (of_char c :: nat) < 128) s"

text \<open>\<^verbatim>\<open>s.substr(start, length)\<close> for non-negative arguments.\<close>

definition substr :: "string \<Rightarrow> nat \<Rightarrow> nat \<Rightarrow> string" where
  "substr s start len = take len (drop start s)"

text \<open>\<^verbatim>\<open>s.substr(start)\<close>: the rest of the string.\<close>

definition substr_from :: "string \<Rightarrow> nat \<Rightarrow> string" where
  "substr_from s start = drop start s"

text \<open>
  \<^verbatim>\<open>s.split(sep)\<close> for a one-character separator: the empty string splits into one
  empty word, and two adjacent separators enclose an empty word.
\<close>

fun split :: "char \<Rightarrow> string \<Rightarrow> string list" where
  "split sep [] = [[]]"
| "split sep (c # cs) =
     (if c = sep then [] # split sep cs
      else (case split sep cs of [] \<Rightarrow> [[c]] | w # ws \<Rightarrow> (c # w) # ws))"

text \<open>\<^verbatim>\<open>words.join(sep)\<close> on an array of strings.\<close>

fun join :: "string \<Rightarrow> string list \<Rightarrow> string" where
  "join sep [] = []"
| "join sep [w] = w"
| "join sep (w # v # ws) = w @ sep @ join sep (v # ws)"

text \<open>\<^verbatim>\<open>words.map((word, idx) => f(word, idx))\<close>, the index counted from \<open>i\<close>.\<close>

fun map_idx :: "(string \<Rightarrow> nat \<Rightarrow> string) \<Rightarrow> nat \<Rightarrow> string list \<Rightarrow> string list" where
  "map_idx f i [] = []"
| "map_idx f i (w # ws) = f w i # map_idx f (Suc i) ws"

section \<open>createKey\<close>

text \<open>
  \<^verbatim>\<open>tir.js\<close>, lines 56 to 63. The statement \<^verbatim>\<open>parsed.replace(/^[A-Za-z0-9 ]+/g, ' ')\<close>
  builds a new string and drops it, so \<^verbatim>\<open>parsed\<close> is the name itself: the words
  between spaces are camel-cased and joined with nothing between them.
\<close>

definition camelWord :: "string \<Rightarrow> nat \<Rightarrow> string" where
  "camelWord word idx =
     (if idx = 0 then toLocaleLowerCase word
      else toLocaleUpperCase (substr word 0 1) @ substr_from (toLowerCase word) 1)"

definition createKey :: "string \<Rightarrow> string" where
  "createKey name = join [] (map_idx camelWord 0 (split (CHR '' '') name))"

section \<open>Paths\<close>

text \<open>
  \<^verbatim>\<open>path.join\<close> of Node.js on a POSIX host: the non-empty arguments are joined with
  a slash and the result is normalised. Normalisation walks the segments between slashes:
  an empty segment and \<^verbatim>\<open>.\<close> are skipped, \<^verbatim>\<open>..\<close> removes the segment before
  it (and is kept at the front of a relative path when there is none), any other segment
  is kept. The segments kept so far are held last first.
\<close>

definition normalizeStep :: "bool \<Rightarrow> string list \<Rightarrow> string \<Rightarrow> string list" where
  "normalizeStep allowAboveRoot res seg =
     (if seg = [] \<or> seg = ''.'' then res
      else if seg = ''..'' then
        (case res of
           [] \<Rightarrow> if allowAboveRoot then [''..''] else []
         | t # ts \<Rightarrow>
             if t = ''..'' then (if allowAboveRoot then ''..'' # res else res) else ts)
      else seg # res)"

definition normalizeString :: "string \<Rightarrow> bool \<Rightarrow> string" where
  "normalizeString path allowAboveRoot =
     join ''/'' (rev (foldl (normalizeStep allowAboveRoot) [] (split (CHR ''/'') path)))"

definition normalize :: "string \<Rightarrow> string" where
  "normalize path =
     (if path = [] then ''.''
      else
        let isAbsolute = (hd path = CHR ''/'');
            trailingSeparator = (last path = CHR ''/'');
            p = normalizeString path (\<not> isAbsolute)
        in if p = [] then (if isAbsolute then ''/'' else if trailingSeparator then ''./'' else ''.'')
           else (if isAbsolute then ''/'' else []) @ p @ (if trailingSeparator then ''/'' else []))"

definition path_join :: "string list \<Rightarrow> string" where
  "path_join args =
     (let parts = filter (\<lambda>a. a \<noteq> []) args
      in if parts = [] then ''.'' else normalize (join ''/'' parts))"

section \<open>JavaScript values of a swarm description\<close>

text \<open>
  An object is the list of its own enumerable properties in the order \<^verbatim>\<open>Object.keys\<close>
  gives them. Data that \<^verbatim>\<open>JSON.stringify\<close> renders is a \<open>json\<close> value; a number
  is held as the text that \<^verbatim>\<open>String(n)\<close> gives for it, which is also what
  \<^verbatim>\<open>JSON.stringify\<close> writes unless the number is not finite: then it writes
  \<^verbatim>\<open>null\<close>.
\<close>

datatype json =
    JsonNull
  | JsonBoolean bool
  | JsonNumber string
  | JsonString string
  | JsonArray "json list"
  | JsonObject "(string \<times> json) list"

text \<open>
  The values whose \<^verbatim>\<open>typeof\<close> is not \<^verbatim>\<open>'object'\<close>: a function is held as its
  source text, which is what its \<^verbatim>\<open>toString()\<close> returns.
\<close>

datatype primitive =
    Function string
  | String string
  | Number string
  | Boolean bool

datatype jsvalue = Object json | NonObject primitive

definition typeof :: "jsvalue \<Rightarrow> string" where
  "typeof v =
     (case v of
        Object j \<Rightarrow> ''object''
      | NonObject (Function src) \<Rightarrow> ''function''
      | NonObject (String s) \<Rightarrow> ''string''
      | NonObject (Number r) \<Rightarrow> ''number''
      | NonObject (Boolean b) \<Rightarrow> ''boolean'')"

fun toString :: "primitive \<Rightarrow> string" where
  "toString (Function src) = src"
| "toString (String s) = s"
| "toString (Number r) = r"
| "toString (Boolean b) = (if b then ''true'' else ''false'')"

text \<open>The string quoting of \<^verbatim>\<open>JSON.stringify\<close>.\<close>

definition hexDigit :: "nat \<Rightarrow> char" where
  "hexDigit n = ''0123456789abcdef'' ! (n mod 16)"

definition quoteChar :: "char \<Rightarrow> string" where
  "quoteChar c =
     (let n = (of_char c :: nat) in
      if n = 34 then [CHR 0x5C, CHR 0x22]
      else if n = 92 then [CHR 0x5C, CHR 0x5C]
      else if n = 8 then [CHR 0x5C, CHR ''b'']
      else if n = 9 then [CHR 0x5C, CHR ''t'']
      else if n = 10 then [CHR 0x5C, CHR ''n'']
      else if n = 12 then [CHR 0x5C, CHR ''f'']
      else if n = 13 then [CHR 0x5C, CHR ''r'']
      else if n < 32 then [CHR 0x5C, CHR ''u'', CHR ''0'', CHR ''0'', hexDigit (n div 16), hexDigit n]
      else [c])"

definition quote :: "string \<Rightarrow> string" where
  "quote s = [CHR 0x22] @ concat (map quoteChar s) @ [CHR 0x22]"

fun stringify :: "json \<Rightarrow> string" where
  "stringify JsonNull = ''null''"
| "stringify (JsonBoolean b) = (if b then ''true'' else ''false'')"
| "stringify (JsonNumber r) =
     (if r = ''NaN'' \<or> r = ''Infinity'' \<or> r = ''-Infinity'' then ''null'' else r)"
| "stringify (JsonString s) = quote s"
| "stringify (JsonArray xs) = ''['' @ join '','' (map stringify xs) @ '']''"
| "stringify (JsonObject ps) =
     ''{'' @ join '','' (map (\<lambda>p. quote (fst p) @ '':'' @ stringify (snd p)) ps) @ ''}''"

type_synonym swarm = "(string \<times> jsvalue) list"
type_synonym describer = "(string \<times> swarm) list"

section \<open>Errors\<close>

datatype errno = ENOENT | EEXIST | ENOTDIR | ENOTEMPTY | EISDIR | EBUSY | ESRCH

text \<open>
  What the code can throw: a system error of \<^verbatim>\<open>fs\<close> or \<^verbatim>\<open>process.kill\<close>, a
  \<^verbatim>\<open>TypeError\<close> of the language or of an argument check, and an \<^verbatim>\<open>Error\<close>
  with its message.
\<close>

datatype error = SystemError errno | TypeError | Error string

section \<open>The file system\<close>

text \<open>
  A tree of directories and files; a file holds its contents, a directory its entries in
  the order \<^verbatim>\<open>readdirSync\<close> lists them. Access rights and symbolic links are not
  modelled. A path string is resolved from the root of the tree to the list of the names
  it goes through. The resolution is that of the operating system for an absolute path
  in normal form (\<open>absoluteNormalForm\<close> below: a slash before each name, no empty
  segment, no \<^verbatim>\<open>.\<close> and no \<^verbatim>\<open>..\<close>), which is the form of every path the
  runner makes with \<^verbatim>\<open>path.join\<close> from an absolute root folder. On another path
  \<open>resolve\<close> drops \<^verbatim>\<open>.\<close> and cancels \<^verbatim>\<open>..\<close> in the text, where the operating
  system walks the directories and starts a relative path at the working directory:
  what is proved about all paths is stated for absolute paths in normal form.
\<close>

datatype fsnode = File string | Dir "(string \<times> fsnode) list"

definition resolve :: "string \<Rightarrow> string list" where
  "resolve path = rev (foldl (normalizeStep False) [] (split (CHR ''/'') path))"

fun lookup :: "fsnode \<Rightarrow> string list \<Rightarrow> fsnode option" where
  "lookup n [] = Some n"
| "lookup (File c) (s # p) = None"
| "lookup (Dir es) (s # p) = (case map_of es s of None \<Rightarrow> None | Some n \<Rightarrow> lookup n p)"

text \<open>
  The error for a list of names that leads to nothing: \<^verbatim>\<open>ENOTDIR\<close> when a file
  stands where the path goes on, \<^verbatim>\<open>ENOENT\<close> when a name is missing.
\<close>

fun lookupError :: "fsnode \<Rightarrow> string list \<Rightarrow> errno" where
  "lookupError n [] = ENOENT"
| "lookupError (File c) (s # p) = ENOTDIR"
| "lookupError (Dir es) (s # p) =
     (case map_of es s of None \<Rightarrow> ENOENT | Some n \<Rightarrow> lookupError n p)"

text \<open>\<open>modify p f\<close> applies \<open>f\<close> to the entries of the directory at \<open>p\<close>.\<close>

fun modify :: "string list \<Rightarrow> ((string \<times> fsnode) list \<Rightarrow> (string \<times> fsnode) list) \<Rightarrow> fsnode \<Rightarrow> fsnode" where
  "modify p f (File c) = File c"
| "modify [] f (Dir es) = Dir (f es)"
| "modify (s # p) f (Dir es) =
     (case map_of es s of
        None \<Rightarrow> Dir es
      | Some n \<Rightarrow> Dir (AList.update s (modify p f n) es))"

definition existsSync :: "fsnode \<Rightarrow> string \<Rightarrow> bool" where
  "existsSync fs path = (path \<noteq> [] \<and> lookup fs (resolve path) \<noteq> None)"

definition readdirSync :: "fsnode \<Rightarrow> string \<Rightarrow> error + string list" where
  "readdirSync fs path =
     (if path = [] then Inl (SystemError ENOENT)
      else case lookup fs (resolve path) of
        None \<Rightarrow> Inl (SystemError (lookupError fs (resolve path)))
      | Some (File c) \<Rightarrow> Inl (SystemError ENOTDIR)
      | Some (Dir es) \<Rightarrow> Inr (map fst es))"

text \<open>\<^verbatim>\<open>fs.lstatSync(path).isDirectory()\<close>\<close>

definition lstatSync_isDirectory :: "fsnode \<Rightarrow> string \<Rightarrow> error + bool" where
  "lstatSync_isDirectory fs path =
     (if path = [] then Inl (SystemError ENOENT)
      else case lookup fs (resolve path) of
        None \<Rightarrow> Inl (SystemError (lookupError fs (resolve path)))
      | Some (File c) \<Rightarrow> Inr False
      | Some (Dir es) \<Rightarrow> Inr True)"

definition unlinkSync :: "fsnode \<Rightarrow> string \<Rightarrow> error + fsnode" where
  "unlinkSync fs path =
     (if path = [] then Inl (SystemError ENOENT)
      else case lookup fs (resolve path) of
        None \<Rightarrow> Inl (SystemError (lookupError fs (resolve path)))
      | Some (Dir es) \<Rightarrow> Inl (SystemError EISDIR)
      | Some (File c) \<Rightarrow>
          Inr (modify (butlast (resolve path)) (AList.delete (last (resolve path))) fs))"

definition rmdirSync :: "fsnode \<Rightarrow> string \<Rightarrow> error + fsnode" where
  "rmdirSync fs path =
     (if path = [] then Inl (SystemError ENOENT)
      else case lookup fs (resolve path) of
        None \<Rightarrow> Inl (SystemError (lookupError fs (resolve path)))
      | Some (File c) \<Rightarrow> Inl (SystemError ENOTDIR)
      | Some (Dir es) \<Rightarrow>
          if es \<noteq> [] then Inl (SystemError ENOTEMPTY)
          else if resolve path = [] then Inl (SystemError EBUSY)
          else Inr (modify (butlast (resolve path)) (AList.delete (last (resolve path))) fs))"

definition mkdirSync :: "fsnode \<Rightarrow> string \<Rightarrow> error + fsnode" where
  "mkdirSync fs path =
     (if path = [] then Inl (SystemError ENOENT)
      else if lookup fs (resolve path) \<noteq> None then Inl (SystemError EEXIST)
      else case lookup fs (butlast (resolve path)) of
        None \<Rightarrow> Inl (SystemError (lookupError fs (butlast (resolve path))))
      | Some (File c) \<Rightarrow> Inl (SystemError ENOTDIR)
      | Some (Dir es) \<Rightarrow>
          Inr (modify (butlast (resolve path)) (\<lambda>es. es @ [(last (resolve path), Dir [])]) fs))"

definition writeFileSync :: "fsnode \<Rightarrow> string \<Rightarrow> string \<Rightarrow> error + fsnode" where
  "writeFileSync fs path contents =
     (if path = [] then Inl (SystemError ENOENT)
      else case lookup fs (resolve path) of
        Some (Dir es) \<Rightarrow> Inl (SystemError EISDIR)
      | Some (File c) \<Rightarrow>
          Inr (modify (butlast (resolve path)) (AList.update (last (resolve path)) (File contents)) fs)
      | None \<Rightarrow>
          (case lookup fs (butlast (resolve path)) of
             None \<Rightarrow> Inl (SystemError (lookupError fs (butlast (resolve path))))
           | Some (File c) \<Rightarrow> Inl (SystemError ENOTDIR)
           | Some (Dir es) \<Rightarrow>
               Inr (modify (butlast (resolve path)) (AList.update (last (resolve path)) (File contents)) fs)))"

text \<open>
  \<^verbatim>\<open>fs.mkdtempSync(prefix)\<close>: the operating system appends six characters of its
  choice, here \<open>suffix\<close>, to make a directory that does not exist yet.
\<close>

definition mkdtempSync :: "fsnode \<Rightarrow> string \<Rightarrow> string \<Rightarrow> error + (string \<times> fsnode)" where
  "mkdtempSync fs prefix suffix =
     (case mkdirSync fs (prefix @ suffix) of
        Inl e \<Rightarrow> Inl e
      | Inr fs' \<Rightarrow> Inr (prefix @ suffix, fs'))"

section \<open>rmDeep\<close>

text \<open>
  \<^verbatim>\<open>tir.js\<close>, lines 65 to 77. The function calls itself on each subdirectory, so the
  model counts the nesting it may still enter: \<open>None\<close> is a run that needs more than the
  given depth. A run that ends gives the tree it leaves behind, together with the error
  when it ended by throwing: what was deleted before the throw stays deleted.
\<close>

fun rmDeep :: "nat \<Rightarrow> string \<Rightarrow> fsnode \<Rightarrow> (error option \<times> fsnode) option"
  and rmDeep_forEach :: "nat \<Rightarrow> string \<Rightarrow> string list \<Rightarrow> fsnode \<Rightarrow> (error option \<times> fsnode) option"
where
  "rmDeep 0 folder fs = None"
| "rmDeep (Suc depth) folder fs =
     (if existsSync fs folder then
        (case readdirSync fs folder of
           Inl e \<Rightarrow> Some (Some e, fs)
         | Inr files \<Rightarrow>
             (case rmDeep_forEach depth folder files fs of
                None \<Rightarrow> None
              | Some (Some e, fs') \<Rightarrow> Some (Some e, fs')
              | Some (None, fs') \<Rightarrow>
                  (case rmdirSync fs' folder of
                     Inl e \<Rightarrow> Some (Some e, fs')
                   | Inr fs'' \<Rightarrow> Some (None, fs''))))
      else Some (None, fs))"
| "rmDeep_forEach depth folder [] fs = Some (None, fs)"
| "rmDeep_forEach depth folder (file # files) fs =
     (let curPath = path_join [folder, file] in
      case lstatSync_isDirectory fs curPath of
        Inl e \<Rightarrow> Some (Some e, fs)
      | Inr isDirectory \<Rightarrow>
          (case (if isDirectory then rmDeep depth curPath fs
                 else (case unlinkSync fs curPath of
                         Inl e \<Rightarrow> Some (Some e, fs)
                       | Inr fs' \<Rightarrow> Some (None, fs'))) of
             None \<Rightarrow> None
           | Some (Some e, fs') \<Rightarrow> Some (Some e, fs')
           | Some (None, fs') \<Rightarrow> rmDeep_forEach depth folder files fs'))"

section \<open>createConstitution\<close>

text \<open>
  \<^verbatim>\<open>tir.js\<close>, lines 79 to 103. \<^verbatim>\<open>Object.assign\<close> lays the fields of
  \<^verbatim>\<open>options\<close> that are present over the defaults.
\<close>

record opts =
  nl :: string
  semi :: string
  tab :: string

record options =
  options_nl :: "string option"
  options_semi :: "string option"
  options_tab :: "string option"

definition Object_assign :: "opts \<Rightarrow> options option \<Rightarrow> opts" where
  "Object_assign target source =
     (case source of
        None \<Rightarrow> target
      | Some src \<Rightarrow>
          \<lparr> nl = (case options_nl src of None \<Rightarrow> nl target | Some x \<Rightarrow> x),
            semi = (case options_semi src of None \<Rightarrow> semi target | Some x \<Rightarrow> x),
            tab = (case options_tab src of None \<Rightarrow> tab target | Some x \<Rightarrow> x) \<rparr>)"

text \<open>
  The callback of the inner \<^verbatim>\<open>reduce\<close>: one property of a swarm. The test
  \<^verbatim>\<open>typeof value === 'object'\<close> is the case distinction on the value.
\<close>

definition pushProperty :: "opts \<Rightarrow> string list \<Rightarrow> string \<times> jsvalue \<Rightarrow> string list" where
  "pushProperty os f p =
     (case snd p of
        Object j \<Rightarrow> f @ [nl os @ tab os @ fst p @ '': '' @ stringify j]
      | NonObject v \<Rightarrow> f @ [nl os @ tab os @ fst p @ '': '' @ toString v])"

text \<open>The callback of the outer \<^verbatim>\<open>reduce\<close>: one swarm.\<close>

definition pushSwarm :: "opts \<Rightarrow> string list \<Rightarrow> string \<times> swarm \<Rightarrow> string list" where
  "pushSwarm os c s =
     c @ [''$$.swarms.describe('' @ [CHR 0x27] @ fst s @ [CHR 0x27] @ '', {''
          @ join '','' (foldl (pushProperty os) [] (snd s))
          @ nl os @ ''})'' @ semi os]"

definition constitutionContents :: "opts \<Rightarrow> describer \<Rightarrow> string" where
  "constitutionContents os d = join (nl os) (foldl (pushSwarm os) [] d)"

definition createConstitution ::
  "string \<Rightarrow> describer \<Rightarrow> options option \<Rightarrow> fsnode \<Rightarrow> error + (string \<times> fsnode)" where
  "createConstitution prefix d os fs =
     (let os' = Object_assign \<lparr> nl = [CHR 0x0A], semi = '';'', tab = ''  '' \<rparr> os;
          file = path_join [prefix, ''constitution.js''];
          contents = constitutionContents os' d
      in case writeFileSync fs file contents of
           Inl e \<Rightarrow> Inl e
         | Inr fs' \<Rightarrow> Inr (file, fs'))"

section \<open>The runner and what surrounds it\<close>

datatype constitution = ConstitutionObject describer | ConstitutionPath string

text \<open>
  The descriptor that \<^verbatim>\<open>addDomain\<close> stores. \<^verbatim>\<open>agents\<close> is \<open>None\<close> when the
  argument is left out.
\<close>

record domainConfig =
  name :: string
  agents :: "string list option"
  constitution :: constitution
  workspace :: string
  conf :: string
  inbound :: string
  outbound :: string

text \<open>The child process object that \<^verbatim>\<open>spawn\<close> returns; it has no pid when the spawn failed.\<close>

datatype ChildProcess = ChildProcess (pid: "nat option")

text \<open>
  The variables of one \<^verbatim>\<open>Tir\<close> instance. \<^verbatim>\<open>domainConfigs\<close> is a plain object:
  its own properties in the order of their creation, and its prototype, which is
  \<^verbatim>\<open>Object.prototype\<close> (\<open>None\<close>) until an assignment to \<^verbatim>\<open>__proto__\<close>
  replaces it by a descriptor.
\<close>

record tir =
  domainConfigs :: "(string \<times> domainConfig) list"
  domainConfigs_prototype :: "domainConfig option"
  rootFolder :: string
  testerNode :: "ChildProcess option"

text \<open>
  The ledger engine (\<^verbatim>\<open>pskdb\<close>, \<^verbatim>\<open>$$.blockchain\<close>) is outside the repository:
  the model records the calls made on it, in order.
\<close>

datatype handler = Blockchain | DBHandler string

datatype ledger_call =
    StartDB string
  | CreateDBHandler string
  | BeginTransaction handler
  | Lookup handler string string
  | DomainInit string string
  | SetWorkspace string
  | SetConstitution string
  | AddLocalInterface string string
  | Add handler string string
  | Commit handler

text \<open>An argument of \<^verbatim>\<open>launch\<close>; a function is known by a number.\<close>

datatype jsarg = ArgUndefined | ArgNull | ArgNumber nat | ArgFunction nat

text \<open>
  The callbacks handed to \<^verbatim>\<open>setTimeout\<close>: the one of \<^verbatim>\<open>launch\<close> (line 172) with
  the \<^verbatim>\<open>tearDownAfter\<close> and \<^verbatim>\<open>callable\<close> it closes over, the watchdog
  \<^verbatim>\<open>() => this.tearDown(1)\<close> (line 174), and the cleanup of \<^verbatim>\<open>tearDown\<close>
  (line 257) with its \<^verbatim>\<open>exitStatus\<close>.
\<close>

datatype task =
    LaunchSettled jsarg jsarg
  | TearDownAfter
  | TearDownCleanup "nat option"

record world =
  fs :: fsnode
  ledger :: "ledger_call list"
  running :: "nat list"
  spawned :: "(string \<times> string list \<times> nat option) list"
  timers :: "(nat \<times> task) list"
  exited :: "nat option"

text \<open>The handle that \<^verbatim>\<open>interact.createNodeInteractionSpace\<close> returns.\<close>

datatype interaction = NodeInteractionSpace string string string

subsection \<open>Properties of a plain object\<close>

definition isDigit :: "char \<Rightarrow> bool" where
  "isDigit c = (48 \<le> (of_char c :: nat) \<and> (of_char c :: nat) \<le> 57)"

definition decimal :: "string \<Rightarrow> int" where
  "decimal k = foldl (\<lambda>n c. 10 * n + ((of_char c :: int) - 48)) 0 k"

definition isArrayIndex :: "string \<Rightarrow> bool" where
  "isArrayIndex k =
     (k = ''0'' \<or> (k \<noteq> [] \<and> hd k \<noteq> CHR ''0'' \<and> list_all isDigit k \<and> decimal k \<le> 4294967294))"

text \<open>
  \<^verbatim>\<open>Object.keys\<close>: the own properties that are array indices in ascending order, then
  the others in the order of their creation.
\<close>

definition Object_keys :: "(string \<times> 'a) list \<Rightarrow> string list" where
  "Object_keys ps =
     sort_key decimal (filter isArrayIndex (map fst ps))
       @ filter (\<lambda>k. \<not> isArrayIndex k) (map fst ps)"

definition ObjectPrototype :: "string list" where
  "ObjectPrototype =
     [''constructor'', ''__defineGetter__'', ''__defineSetter__'', ''hasOwnProperty'',
      ''__lookupGetter__'', ''__lookupSetter__'', ''isPrototypeOf'', ''propertyIsEnumerable'',
      ''toString'', ''valueOf'', ''__proto__'', ''toLocaleString'']"

definition domainConfigFields :: "string list" where
  "domainConfigFields =
     [''name'', ''agents'', ''constitution'', ''workspace'', ''conf'', ''inbound'', ''outbound'']"

text \<open>
  What \<^verbatim>\<open>domainConfigs[domain]\<close> reads: an own property, else what the prototype
  chain has under that name, which is a value that is not a descriptor (a built-in
  function, a field of the descriptor that was made the prototype), else
  \<^verbatim>\<open>undefined\<close>.
\<close>

datatype property = Undefined | Descriptor domainConfig | Inherited

definition domainConfigs_get :: "tir \<Rightarrow> string \<Rightarrow> property" where
  "domainConfigs_get t k =
     (case map_of (domainConfigs t) k of
        Some dc \<Rightarrow> Descriptor dc
      | None \<Rightarrow>
          (case domainConfigs_prototype t of
             None \<Rightarrow> if k \<in> set ObjectPrototype then Inherited else Undefined
           | Some dc \<Rightarrow>
               if k = ''__proto__'' then Descriptor dc
               else if k = ''agents'' \<and> agents dc = None then Undefined
               else if k \<in> set domainConfigFields \<or> k \<in> set ObjectPrototype then Inherited
               else Undefined))"

text \<open>\<^verbatim>\<open>domainConfigs[domain] = domainConfig\<close>\<close>

definition domainConfigs_set :: "string \<Rightarrow> domainConfig \<Rightarrow> tir \<Rightarrow> tir" where
  "domainConfigs_set k dc t =
     (if k = ''__proto__'' then t\<lparr>domainConfigs_prototype := Some dc\<rparr>
      else t\<lparr>domainConfigs := AList.update k dc (domainConfigs t)\<rparr>)"

subsection \<open>The constructor and addDomain\<close>

text \<open>
  \<^verbatim>\<open>tir.js\<close>, lines 105 to 110; \<open>tmpdir\<close> is what \<^verbatim>\<open>os.tmpdir()\<close> returns and
  \<open>suffix\<close> the characters \<^verbatim>\<open>mkdtempSync\<close> appends.
\<close>

definition Tir :: "string \<Rightarrow> string \<Rightarrow> world \<Rightarrow> (error + tir) \<times> world" where
  "Tir tmpdir suffix w =
     (case mkdtempSync (fs w) (path_join [tmpdir, ''psk_'']) suffix of
        Inl e \<Rightarrow> (Inl e, w)
      | Inr (root, fs') \<Rightarrow>
          (Inr \<lparr> domainConfigs = [], domainConfigs_prototype = None,
                 rootFolder = root, testerNode = None \<rparr>,
           w\<lparr>fs := fs'\<rparr>))"

text \<open>\<^verbatim>\<open>tir.js\<close>, lines 122 to 135.\<close>

definition addDomain :: "string \<Rightarrow> string list option \<Rightarrow> constitution \<Rightarrow> tir \<Rightarrow> tir" where
  "addDomain domain ags cn t =
     (let ws = path_join [rootFolder t, ''nodes'', createKey domain];
          dc = \<lparr> name = domain, agents = ags, constitution = cn, workspace = ws,
                 conf = path_join [ws, ''conf''],
                 inbound = path_join [ws, ''inbound''],
                 outbound = path_join [ws, ''outbound''] \<rparr>
      in domainConfigs_set domain dc t)"

subsection \<open>buildDomainConfiguration\<close>

text \<open>
  \<^verbatim>\<open>tir.js\<close>, lines 187 to 220. The calls of \<^verbatim>\<open>console.info\<close> are left out
  everywhere: they change nothing that the runner reads. A function that can throw gives
  the error together with the state at the throw.
\<close>

definition registerAgent :: "string \<Rightarrow> world \<Rightarrow> string \<Rightarrow> world" where
  "registerAgent cf w agentName =
     w\<lparr>ledger := ledger w @
         [BeginTransaction (DBHandler cf),
          Lookup (DBHandler cf) ''Agent'' agentName,
          Add (DBHandler cf) ''Agent'' agentName,
          Commit (DBHandler cf)]\<rparr>"

definition buildDomainConfiguration :: "domainConfig \<Rightarrow> world \<Rightarrow> (error + unit) \<times> world" where
  "buildDomainConfiguration dc w =
     (case mkdirSync (fs w) (workspace dc) of
        Inl e \<Rightarrow> (Inl e, w)
      | Inr fs1 \<Rightarrow>
          (case (case constitution dc of
                   ConstitutionPath file \<Rightarrow> Inr (file, fs1)
                 | ConstitutionObject d \<Rightarrow> createConstitution (workspace dc) d None fs1) of
             Inl e \<Rightarrow> (Inl e, w\<lparr>fs := fs1\<rparr>)
           | Inr (constitutionFile, fs2) \<Rightarrow>
               (let w2 = w\<lparr>fs := fs2,
                            ledger := ledger w @
                              [BeginTransaction Blockchain,
                               Lookup Blockchain ''DomainReference'' (name dc),
                               DomainInit ''system'' (name dc),
                               SetWorkspace (workspace dc),
                               SetConstitution constitutionFile,
                               AddLocalInterface ''local'' (inbound dc),
                               Add Blockchain ''DomainReference'' (name dc),
                               Commit Blockchain]\<rparr>
                in case agents dc of
                     None \<Rightarrow> (Inr (), w2)
                   | Some ags \<Rightarrow>
                       if length ags > 0
                       then (Inr (),
                             foldl (registerAgent (conf dc))
                               (w2\<lparr>ledger := ledger w2 @ [CreateDBHandler (conf dc)]\<rparr>) ags)
                       else (Inr (), w2))))"

subsection \<open>launch\<close>

text \<open>
  The loop of lines 165 to 168 over \<^verbatim>\<open>Object.keys(domainConfigs)\<close>; a throw ends it.
\<close>

fun launch_forEach :: "(string \<times> domainConfig) list \<Rightarrow> string list \<Rightarrow> world \<Rightarrow> (error + unit) \<times> world" where
  "launch_forEach cfgs [] w = (Inr (), w)"
| "launch_forEach cfgs (k # ks) w =
     (case map_of cfgs k of
        None \<Rightarrow> (Inl TypeError, w)
      | Some dc \<Rightarrow>
          (case buildDomainConfiguration dc w of
             (Inl e, w') \<Rightarrow> (Inl e, w')
           | (Inr u, w') \<Rightarrow> launch_forEach cfgs ks w'))"

text \<open>
  \<^verbatim>\<open>tir.js\<close>, lines 144 to 179. \<open>child\<close> is the pid the operating system gives the
  spawned process, \<open>None\<close> when the spawn fails. Reading \<^verbatim>\<open>tearDownAfter.call\<close>
  throws when \<^verbatim>\<open>tearDownAfter\<close> is \<^verbatim>\<open>undefined\<close> or \<^verbatim>\<open>null\<close>.
\<close>

definition launch :: "jsarg \<Rightarrow> jsarg \<Rightarrow> nat option \<Rightarrow> tir \<times> world \<Rightarrow> (error + unit) \<times> tir \<times> world" where
  "launch tearDownAfter callable child s =
     (let t = fst s; w = snd s in
      if callable = ArgUndefined \<and> (tearDownAfter = ArgUndefined \<or> tearDownAfter = ArgNull)
      then (Inl TypeError, t, w)
      else
        let swap = (callable = ArgUndefined \<and> (case tearDownAfter of ArgFunction f \<Rightarrow> True | _ \<Rightarrow> False));
            callable' = (if swap then tearDownAfter else callable);
            tearDownAfter' = (if swap then ArgNull else tearDownAfter)
        in if testerNode t \<noteq> None
           then (Inl (Error ''Test node already launched!''), t, w)
           else
             let confFolder = path_join [rootFolder t, ''conf''];
                 w1 = w\<lparr>ledger := ledger w @ [StartDB confFolder]\<rparr>
             in case mkdirSync (fs w1) (path_join [rootFolder t, ''nodes'']) of
                  Inl e \<Rightarrow> (Inl e, t, w1)
                | Inr fs' \<Rightarrow>
                    (case launch_forEach (domainConfigs t) (Object_keys (domainConfigs t)) (w1\<lparr>fs := fs'\<rparr>) of
                       (Inl e, w2) \<Rightarrow> (Inl e, t, w2)
                     | (Inr u, w2) \<Rightarrow>
                         (Inr (),
                          t\<lparr>testerNode := Some (ChildProcess child)\<rparr>,
                          w2\<lparr>spawned := spawned w2 @
                                [(''node'', [''./../../../engine/launcher'', confFolder, rootFolder t], child)],
                              running := running w2 @ (case child of None \<Rightarrow> [] | Some p \<Rightarrow> [p]),
                              timers := timers w2 @ [(10, LaunchSettled tearDownAfter' callable')]\<rparr>)))"

subsection \<open>interact\<close>

text \<open>
  \<^verbatim>\<open>tir.js\<close>, lines 229 to 243. \<open>random\<close> is the text of
  \<^verbatim>\<open>Math.random().toString(36)\<close>. \<^verbatim>\<open>path.join\<close> throws a
  \<^verbatim>\<open>TypeError\<close> on an argument that is not a string, which is what the
  \<^verbatim>\<open>outbound\<close> of a value that is not a descriptor is.
\<close>

definition interact :: "string \<Rightarrow> string \<Rightarrow> string \<Rightarrow> tir \<times> world \<Rightarrow> (error + interaction) \<times> tir \<times> world" where
  "interact domain agent random s =
     (let t = fst s; w = snd s in
      case domainConfigs_get t domain of
        Undefined \<Rightarrow>
          (Inl (Error (''Could not find domain '' @ domain @ '' in ''
                        @ join '', '' (Object_keys (domainConfigs t)))), t, w)
      | Inherited \<Rightarrow> (Inl TypeError, t, w)
      | Descriptor dc \<Rightarrow>
          (let returnChannel = path_join [outbound dc, substr random 2 9];
               fs' = (case mkdirSync (fs w) (outbound dc) of Inl err \<Rightarrow> fs w | Inr fs' \<Rightarrow> fs')
           in (Inr (NodeInteractionSpace agent (inbound dc) returnChannel), t, w\<lparr>fs := fs'\<rparr>)))"

subsection \<open>tearDown\<close>

text \<open>
  \<^verbatim>\<open>process.kill(pid)\<close> throws a \<^verbatim>\<open>TypeError\<close> when the pid is not a number and
  the system error \<^verbatim>\<open>ESRCH\<close> when no process has that pid; otherwise the process
  gets the signal and ends.
\<close>

definition process_kill :: "world \<Rightarrow> nat option \<Rightarrow> error + world" where
  "process_kill w p =
     (case p of
        None \<Rightarrow> Inl TypeError
      | Some n \<Rightarrow>
          if n \<in> set (running w) then Inr (w\<lparr>running := removeAll n (running w)\<rparr>)
          else Inl (SystemError ESRCH))"

text \<open>\<^verbatim>\<open>tir.js\<close>, lines 250 to 271, up to the return of the call.\<close>

definition tearDown :: "nat option \<Rightarrow> tir \<times> world \<Rightarrow> (error + unit) \<times> tir \<times> world" where
  "tearDown exitStatus s =
     (let t = fst s; w = snd s in
      case testerNode t of
        None \<Rightarrow> (Inr (), t, w\<lparr>timers := timers w @ [(100, TearDownCleanup exitStatus)]\<rparr>)
      | Some node \<Rightarrow>
          (case process_kill w (pid node) of
             Inl e \<Rightarrow> (Inl e, t, w)
           | Inr w' \<Rightarrow>
               (Inr (), t\<lparr>testerNode := None\<rparr>,
                w'\<lparr>timers := timers w' @ [(100, TearDownCleanup exitStatus)]\<rparr>)))"

text \<open>
  The callback of lines 257 to 270, run by the timer: the \<^verbatim>\<open>try\<close> block drops what
  \<open>rmDeep\<close> throws. \<open>depth\<close> is the nesting \<open>rmDeep\<close> may enter.
\<close>

definition tearDownCleanup :: "nat \<Rightarrow> nat option \<Rightarrow> tir \<times> world \<Rightarrow> (tir \<times> world) option" where
  "tearDownCleanup depth exitStatus s =
     (let t = fst s; w = snd s in
      case rmDeep depth (rootFolder t) (fs w) of
        None \<Rightarrow> None
      | Some (err, fs') \<Rightarrow>
          Some (t, w\<lparr>fs := fs',
                     exited := (case exitStatus of None \<Rightarrow> exited w | Some st \<Rightarrow> Some st)\<rparr>))"

section \<open>Notions the properties are stated with\<close>

text \<open>
  The texts \<^verbatim>\<open>Number.prototype.toString(36)\<close> gives for a number that is at least 0 and
  less than 1: \<^verbatim>\<open>0\<close> for zero, else \<^verbatim>\<open>0.\<close> and at least one digit of radix 36.
\<close>

definition isLower :: "char \<Rightarrow> bool" where
  "isLower c = (97 \<le> (of_char c :: nat) \<and> (of_char c :: nat) \<le> 122)"

definition isUpper :: "char \<Rightarrow> bool" where
  "isUpper c = (65 \<le> (of_char c :: nat) \<and> (of_char c :: nat) \<le> 90)"

definition isAlphanumeric :: "char \<Rightarrow> bool" where
  "isAlphanumeric c = (isDigit c \<or> isLower c \<or> isUpper c)"

definition isRadix36Fraction :: "string \<Rightarrow> bool" where
  "isRadix36Fraction r =
     (r = ''0'' \<or>
      (take 2 r = ''0.'' \<and> drop 2 r \<noteq> [] \<and> list_all (\<lambda>c. isDigit c \<or> isLower c) (drop 2 r)))"

text \<open>
  A name as \<open>createKey\<close> folds it: spaces dropped, letters in lower case. A segment name
  is what a path holds between two slashes and keeps under normalisation. A plain path is
  a relative path in normal form that does not leave its starting point: segment names
  with one slash between them. An absolute path in normal form is a slash and a plain
  path.
\<close>

definition foldedName :: "string \<Rightarrow> string" where
  "foldedName d = toLowerCase (filter (\<lambda>c. c \<noteq> CHR '' '') d)"

definition segmentName :: "string \<Rightarrow> bool" where
  "segmentName k = (k \<noteq> [] \<and> k \<noteq> ''.'' \<and> k \<noteq> ''..'' \<and> CHR ''/'' \<notin> set k)"

definition plainPath :: "string \<Rightarrow> bool" where
  "plainPath k = list_all segmentName (split (CHR ''/'') k)"

definition absoluteNormalForm :: "string \<Rightarrow> bool" where
  "absoluteNormalForm p = (p \<noteq> [] \<and> hd p = CHR ''/'' \<and> plainPath (tl p))"

text \<open>
  A tree as a file system holds it: the names of a directory are pairwise distinct segment
  names. The height of a tree bounds the nesting \<open>rmDeep\<close> enters on it.
\<close>

fun wellFormed :: "fsnode \<Rightarrow> bool" where
  "wellFormed (File c) = True"
| "wellFormed (Dir es) =
     (distinct (map fst es) \<and> (\<forall>e \<in> set es. segmentName (fst e) \<and> wellFormed (snd e)))"

fun height :: "fsnode \<Rightarrow> nat" where
  "height (File c) = 0"
| "height (Dir es) = Suc (fold max (map (\<lambda>e. height (snd e)) es) 0)"

text \<open>
  Every descriptor of a runner has the workspace that \<open>addDomain\<close> derives from the name
  it is stored under.
\<close>

definition derived :: "tir \<Rightarrow> bool" where
  "derived t =
     ((\<forall>p \<in> set (domainConfigs t).
          fst p \<noteq> ''__proto__''
          \<and> workspace (snd p) = path_join [rootFolder t, ''nodes'', createKey (fst p)])
      \<and> (\<forall>dc. domainConfigs_prototype t = Some dc \<longrightarrow>
             workspace dc = path_join [rootFolder t, ''nodes'', createKey ''__proto__'']))"

text \<open>A sequence of \<open>addDomain\<close> calls on one runner, each with its three arguments.\<close>

definition addDomains :: "(string \<times> string list option \<times> constitution) list \<Rightarrow> tir \<Rightarrow> tir" where
  "addDomains calls t = foldl (\<lambda>t' (d, ags, cn). addDomain d ags cn t') t calls"

text \<open>
  The calls of a test on its runner other than \<open>tearDown\<close>, each with its arguments and
  with what the environment gives it (the random text, the pid of the child), and the
  state a call leaves, whether it returns or throws.
\<close>

datatype call =
    AddDomain string "string list option" constitution
  | Interact string string string
  | Launch jsarg jsarg "nat option"

fun perform :: "call \<Rightarrow> tir \<times> world \<Rightarrow> tir \<times> world" where
  "perform (AddDomain d ags cn) s = (addDomain d ags cn (fst s), snd s)"
| "perform (Interact d agent random) s = snd (interact d agent random s)"
| "perform (Launch a c child) s = snd (launch a c child s)"

definition performAll :: "call list \<Rightarrow> tir \<times> world \<Rightarrow> tir \<times> world" where
  "performAll calls s = foldl (\<lambda>s' k. perform k s') s calls"

text \<open>The calls that go to one ledger handler, and the four calls that register one agent.\<close>

fun onHandler :: "handler \<Rightarrow> ledger_call \<Rightarrow> bool" where
  "onHandler h (BeginTransaction h') = (h = h')"
| "onHandler h (Lookup h' kind nm) = (h = h')"
| "onHandler h (Add h' kind nm) = (h = h')"
| "onHandler h (Commit h') = (h = h')"
| "onHandler h c = False"

definition agentTransaction :: "string \<Rightarrow> string \<Rightarrow> ledger_call list" where
  "agentTransaction cf agentName =
     [BeginTransaction (DBHandler cf), Lookup (DBHandler cf) ''Agent'' agentName,
      Add (DBHandler cf) ''Agent'' agentName, Commit (DBHandler cf)]"

section \<open>A test run\<close>

text \<open>
  The run of the example at the head of \<^verbatim>\<open>tir.js\<close>, on a machine whose temporary
  directory is \<^verbatim>\<open>/tmp\<close>: the runner is made, one domain with two agents is added and
  launched, and the runner is torn down.
\<close>

definition world0 :: world where
  "world0 = \<lparr> fs = Dir [(''tmp'', Dir [])], ledger = [], running = [], spawned = [],
              timers = [], exited = None \<rparr>"

definition run_made :: "tir \<times> world" where
  "run_made =
     (\<lparr> domainConfigs = [], domainConfigs_prototype = None,
         rootFolder = ''/tmp/psk_a1b2c3'', testerNode = None \<rparr>,
      world0\<lparr>fs := Dir [(''tmp'', Dir [(''psk_a1b2c3'', Dir [])])]\<rparr>)"

definition echo :: describer where
  "echo = [(''echo'', [(''say'', NonObject (Function ''function(input) { this.return(input); }''))])]"

definition run_added :: "tir \<times> world" where
  "run_added =
     (addDomain ''local'' (Some [''a0'', ''a1'']) (ConstitutionObject echo) (fst run_made),
      snd run_made)"

definition run_launched :: "tir \<times> world" where
  "run_launched = snd (launch (ArgNumber 5000) (ArgFunction 0) (Some 4242) run_added)"

definition run_torn :: "tir \<times> world" where
  "run_torn = snd (tearDown None run_launched)"

text \<open>A tree with the workspace of a run and a file beside it.\<close>

definition tree0 :: fsnode where
  "tree0 =
     Dir [(''tmp'',
           Dir [(''psk_a1b2c3'',
                 Dir [(''conf'', Dir [(''ledger'', File ''{}'')]),
                      (''nodes'',
                       Dir [(''local'',
                             Dir [(''constitution.js'', File ''$$.swarms.describe()''),
                                  (''outbound'', Dir [])])])]),
                (''keep.txt'', File ''x'')])]"

text \<open>Runners with two domains each, added to the runner of the example run.\<close>

definition run_two_cases :: tir where
  "run_two_cases =
     addDomains [(''A'', None, ConstitutionPath ''/srv/constitution.js''),
                 (''a'', None, ConstitutionPath ''/srv/constitution.js'')] (fst run_made)"

definition run_two_domains :: tir where
  "run_two_domains =
     addDomains [(''local'', None, ConstitutionPath ''/srv/constitution.js''),
                 (''My Domain'', None, ConstitutionPath ''/srv/constitution.js'')] (fst run_made)"

text \<open>The same run when the child process has ended by itself before the teardown.\<close>

definition run_child_exited :: "tir \<times> world" where
  "run_child_exited = (fst run_launched, (snd run_launched)\<lparr>running := []\<rparr>)"

text \<open>
  The scenario of the specification: a domain with the agents \<^verbatim>\<open>a0\<close>, \<^verbatim>\<open>a1\<close>,
  \<^verbatim>\<open>a2\<close> and a constitution given as a path, provisioned once \<^verbatim>\<open>launch\<close> has made
  the directory \<^verbatim>\<open>nodes\<close>.
\<close>

definition three_agents :: domainConfig where
  "three_agents =
     \<lparr> name = ''local'', agents = Some [''a0'', ''a1'', ''a2''],
       constitution = ConstitutionPath ''/srv/constitution.js'',
       workspace = ''/tmp/psk_a1b2c3/nodes/local'',
       conf = ''/tmp/psk_a1b2c3/nodes/local/conf'',
       inbound = ''/tmp/psk_a1b2c3/nodes/local/inbound'',
       outbound = ''/tmp/psk_a1b2c3/nodes/local/outbound'' \<rparr>"

definition world_nodes :: world where
  "world_nodes =
     world0\<lparr>fs := Dir [(''tmp'', Dir [(''psk_a1b2c3'', Dir [(''nodes'', Dir [])])])],
            ledger := [StartDB ''/tmp/psk_a1b2c3/conf'']\<rparr>"

text \<open>
  A swarm description in the style of \<^verbatim>\<open>swarmBasicTest.js\<close>: a string, an object and a
  function.
\<close>

definition simpleSwarm :: describer where
  "simpleSwarm =
     [(''simpleSwarm'',
       [(''type'', NonObject (String ''flow'')),
        (''public'', Object (JsonObject [(''a1'', JsonString ''int''), (''result'', JsonString ''int'')])),
        (''begin'', NonObject (Function ''function(a1,a2){ this.result = a1 + a2; }''))])]"

section \<open>Evaluation\<close>

lemmas path_defs = path_join_def normalize_def normalizeString_def normalizeStep_def resolve_def

lemmas fs_defs = existsSync_def readdirSync_def lstatSync_isDirectory_def unlinkSync_def
  rmdirSync_def mkdirSync_def writeFileSync_def mkdtempSync_def

lemmas key_defs = createKey_def camelWord_def toLowerCase_def toLocaleLowerCase_def
  toLocaleUpperCase_def
  toLowerCaseChar_def toUpperCaseChar_def substr_def substr_from_def

lemma run_made_Tir: "Tir ''/tmp'' ''a1b2c3'' world0 = (Inr (fst run_made), snd run_made)"
  by (simp add: Tir_def world0_def run_made_def path_defs fs_defs)

lemma local_config:
  "domainConfigs_get (fst run_added) ''local'' =
     Descriptor \<lparr> name = ''local'', agents = Some [''a0'', ''a1''],
       constitution = ConstitutionObject echo,
       workspace = ''/tmp/psk_a1b2c3/nodes/local'',
       conf = ''/tmp/psk_a1b2c3/nodes/local/conf'',
       inbound = ''/tmp/psk_a1b2c3/nodes/local/inbound'',
       outbound = ''/tmp/psk_a1b2c3/nodes/local/outbound'' \<rparr>"
  by (simp add: run_added_def run_made_def addDomain_def domainConfigs_set_def
      domainConfigs_get_def path_defs key_defs)

section \<open>The correlation token\<close>

lemma token_alphanumeric:
  "isRadix36Fraction r \<Longrightarrow> list_all isAlphanumeric (substr r 2 9)"
  unfolding isRadix36Fraction_def substr_def
  by (auto simp: list_all_iff isAlphanumeric_def dest: in_set_takeD)

text \<open>
  C4, as the code has it. For a registered domain and every text the random source can
  give, \<open>interact\<close> returns a handle whose return channel is the outbound path joined with
  the token \<^verbatim>\<open>substr(2, 9)\<close> of that text: the token is alphanumeric and has at most
  nine characters, exactly nine when the text has nine digits or more after \<^verbatim>\<open>0.\<close>.
\<close>

theorem interact_token:
  assumes "domainConfigs_get t domain = Descriptor dc" and "isRadix36Fraction random"
  shows "fst (interact domain agent random (t, w)) =
           Inr (NodeInteractionSpace agent (inbound dc)
                  (path_join [outbound dc, substr random 2 9]))
         \<and> length (substr random 2 9) \<le> 9
         \<and> list_all isAlphanumeric (substr random 2 9)
         \<and> (11 \<le> length random \<longrightarrow> length (substr random 2 9) = 9)"
  using assms token_alphanumeric [of random]
  by (simp add: interact_def Let_def substr_def)

theorem interact_token_witness:
  "domainConfigs_get (fst run_added) ''local'' =
     Descriptor \<lparr> name = ''local'', agents = Some [''a0'', ''a1''],
       constitution = ConstitutionObject echo,
       workspace = ''/tmp/psk_a1b2c3/nodes/local'',
       conf = ''/tmp/psk_a1b2c3/nodes/local/conf'',
       inbound = ''/tmp/psk_a1b2c3/nodes/local/inbound'',
       outbound = ''/tmp/psk_a1b2c3/nodes/local/outbound'' \<rparr>
   \<and> isRadix36Fraction ''0.4fzyo82mvyr''
   \<and> 11 \<le> length ''0.4fzyo82mvyr''
   \<and> fst (interact ''local'' ''a0'' ''0.4fzyo82mvyr'' (fst run_added, snd run_added)) =
       Inr (NodeInteractionSpace ''a0'' ''/tmp/psk_a1b2c3/nodes/local/inbound''
              ''/tmp/psk_a1b2c3/nodes/local/outbound/4fzyo82mv'')
   \<and> length (substr ''0.4fzyo82mvyr'' 2 9) = 9"
proof -
  have r: "isRadix36Fraction ''0.4fzyo82mvyr''"
    by (simp add: isRadix36Fraction_def isDigit_def isLower_def)
  have p: "path_join [''/tmp/psk_a1b2c3/nodes/local/outbound'', substr ''0.4fzyo82mvyr'' 2 9]
             = ''/tmp/psk_a1b2c3/nodes/local/outbound/4fzyo82mv''"
    by (simp add: path_defs substr_def)
  show ?thesis
    using interact_token [OF local_config r, of "''a0''" "snd run_added"] r local_config p
    by simp
qed

text \<open>
  C4 as stated fails: when \<^verbatim>\<open>Math.random()\<close> returns one half, whose text in radix 36
  is \<^verbatim>\<open>0.i\<close>, the token is the one character \<^verbatim>\<open>i\<close>.
\<close>

theorem interact_token_short:
  "isRadix36Fraction ''0.i''
   \<and> fst (interact ''local'' ''a0'' ''0.i'' run_added) =
       Inr (NodeInteractionSpace ''a0'' ''/tmp/psk_a1b2c3/nodes/local/inbound''
              ''/tmp/psk_a1b2c3/nodes/local/outbound/i'')
   \<and> length (substr ''0.i'' 2 9) < 9"
proof -
  have "fst (interact ''local'' ''a0'' ''0.i'' run_added) =
       Inr (NodeInteractionSpace ''a0'' ''/tmp/psk_a1b2c3/nodes/local/inbound''
              ''/tmp/psk_a1b2c3/nodes/local/outbound/i'')"
    using local_config by (simp add: interact_def Let_def substr_def path_defs)
  then show ?thesis
    by (simp add: isRadix36Fraction_def isLower_def substr_def)
qed

section \<open>The example run, evaluated\<close>

lemma run_added_eq:
  "run_added =
    (\<lparr> domainConfigs = [(''local'', \<lparr> name = ''local'', agents = Some [''a0'', ''a1''],
       constitution = ConstitutionObject echo,
       workspace = ''/tmp/psk_a1b2c3/nodes/local'',
       conf = ''/tmp/psk_a1b2c3/nodes/local/conf'',
       inbound = ''/tmp/psk_a1b2c3/nodes/local/inbound'',
       outbound = ''/tmp/psk_a1b2c3/nodes/local/outbound'' \<rparr>)],
       domainConfigs_prototype = None,
       rootFolder = ''/tmp/psk_a1b2c3'', testerNode = None \<rparr>,
     world0\<lparr>fs := Dir [(''tmp'', Dir [(''psk_a1b2c3'', Dir [])])]\<rparr>)"
  by (simp add: run_added_def run_made_def addDomain_def domainConfigs_set_def path_defs key_defs)

lemma launch_run_added:
  "launch (ArgNumber 5000) (ArgFunction 0) (Some 4242) run_added =
    (Inr (), (fst run_added)\<lparr>testerNode := Some (ChildProcess (Some 4242))\<rparr>,
     \<lparr> fs = Dir [(''tmp'', Dir [(''psk_a1b2c3'', Dir [(''nodes'', Dir [(''local'',
              Dir [(''constitution.js'',
                File (constitutionContents \<lparr> nl = [CHR 0x0A], semi = '';'', tab = ''  '' \<rparr> echo))])])])])],
       ledger = [StartDB ''/tmp/psk_a1b2c3/conf'', BeginTransaction Blockchain,
        Lookup Blockchain ''DomainReference'' ''local'',
        DomainInit ''system'' ''local'',
        SetWorkspace ''/tmp/psk_a1b2c3/nodes/local'',
        SetConstitution ''/tmp/psk_a1b2c3/nodes/local/constitution.js'',
        AddLocalInterface ''local'' ''/tmp/psk_a1b2c3/nodes/local/inbound'',
        Add Blockchain ''DomainReference'' ''local'', Commit Blockchain,
        CreateDBHandler ''/tmp/psk_a1b2c3/nodes/local/conf'']
        @ agentTransaction ''/tmp/psk_a1b2c3/nodes/local/conf'' ''a0''
        @ agentTransaction ''/tmp/psk_a1b2c3/nodes/local/conf'' ''a1'',
       running = [4242],
       spawned = [(''node'', [''./../../../engine/launcher'', ''/tmp/psk_a1b2c3/conf'', ''/tmp/psk_a1b2c3''], Some 4242)],
       timers = [(10, LaunchSettled (ArgNumber 5000) (ArgFunction 0))],
       exited = None \<rparr>)"
  unfolding run_added_eq
  by (simp add: launch_def Let_def world0_def Object_keys_def isArrayIndex_def isDigit_def
      buildDomainConfiguration_def createConstitution_def Object_assign_def registerAgent_def
      agentTransaction_def path_defs fs_defs)

lemma tearDown_run_launched:
  "tearDown None run_launched =
     (Inr (), fst run_added,
      (snd run_launched)\<lparr>running := [], timers := [(10, LaunchSettled (ArgNumber 5000) (ArgFunction 0)), (100, TearDownCleanup None)]\<rparr>)"
  unfolding run_launched_def launch_run_added
  by (simp add: tearDown_def process_kill_def run_added_eq)

section \<open>launch and tearDown\<close>

lemma mkdirSync_error: "mkdirSync f p = Inl e \<Longrightarrow> e \<noteq> Error m"
  by (auto simp: mkdirSync_def split: if_splits option.splits fsnode.splits)

lemma writeFileSync_error: "writeFileSync f p c = Inl e \<Longrightarrow> e \<noteq> Error m"
  by (auto simp: writeFileSync_def split: if_splits option.splits fsnode.splits)

lemma createConstitution_error: "createConstitution p d os f = Inl e \<Longrightarrow> e \<noteq> Error m"
  by (auto simp: createConstitution_def Let_def split: sum.splits dest: writeFileSync_error)

lemma buildDomainConfiguration_error:
  "buildDomainConfiguration dc w = (Inl e, w') \<Longrightarrow> e \<noteq> Error m"
  by (auto simp: buildDomainConfiguration_def Let_def
      split: sum.splits constitution.splits option.splits if_splits prod.splits
      dest: mkdirSync_error createConstitution_error)

lemma launch_forEach_error:
  "launch_forEach cfgs ks w = (Inl e, w') \<Longrightarrow> e \<noteq> Error m"
proof (induction ks arbitrary: w)
  case Nil
  then show ?case by simp
next
  case (Cons k ks)
  then show ?case
    by (auto split: option.splits prod.splits sum.splits dest: buildDomainConfiguration_error)
qed

lemma launch_guard_passed:
  assumes "testerNode t = None"
  shows "fst (launch a c child (t, w)) \<noteq> Inl (Error ''Test node already launched!'')"
proof
  assume h: "fst (launch a c child (t, w)) = Inl (Error ''Test node already launched!'')"
  show False
    using h assms
    by (auto simp: launch_def Let_def split: if_splits sum.splits prod.splits
        dest: mkdirSync_error launch_forEach_error)
qed

text \<open>
  C9. A \<open>tearDown\<close> that returns leaves no process tracked. At its return the cleanup is
  only scheduled: the file system is as before the call and the timer holds the cleanup.
  A \<open>launch\<close> that follows, with any arguments and in any world, does not throw the
  error of the already-launched guard.
\<close>

theorem tearDown_clears_testerNode:
  assumes "tearDown exitStatus (t, w) = (Inr (), t', w')"
  shows "testerNode t' = None
         \<and> fs w' = fs w
         \<and> timers w' = timers w @ [(100, TearDownCleanup exitStatus)]
         \<and> fst (launch a c child (t', w'')) \<noteq> Inl (Error ''Test node already launched!'')"
proof -
  have n: "testerNode t' = None"
    using assms
    by (auto simp: tearDown_def Let_def split: option.splits sum.splits)
  have f: "fs w' = fs w \<and> timers w' = timers w @ [(100, TearDownCleanup exitStatus)]"
    using assms
    by (auto simp: tearDown_def Let_def process_kill_def split: option.splits sum.splits if_splits)
  show ?thesis using n f launch_guard_passed [OF n] by simp
qed


theorem tearDown_clears_testerNode_witness:
  "tearDown None run_launched = (Inr (), fst run_torn, snd run_torn)
   \<and> testerNode (fst run_launched) = Some (ChildProcess (Some 4242))
   \<and> testerNode (fst run_torn) = None
   \<and> fs (snd run_torn) = fs (snd run_launched)
   \<and> timers (snd run_torn) = timers (snd run_launched) @ [(100, TearDownCleanup None)]
   \<and> fst (launch (ArgFunction 1) ArgUndefined (Some 4243) (fst run_torn, snd run_torn))
        \<noteq> Inl (Error ''Test node already launched!'')"
proof -
  have h: "tearDown None (fst run_launched, snd run_launched) = (Inr (), fst run_torn, snd run_torn)"
    by (simp add: run_torn_def tearDown_run_launched)
  have l: "testerNode (fst run_launched) = Some (ChildProcess (Some 4242))"
    by (simp add: run_launched_def launch_run_added)
  show ?thesis
    using tearDown_clears_testerNode [OF h, of "ArgFunction 1" ArgUndefined "Some 4243" "snd run_torn"] h l
    by simp
qed

lemma launch_tracks:
  assumes "launch a c child s = (Inr (), s')"
  shows "testerNode (fst s') \<noteq> None"
  using assms
  by (auto simp: launch_def Let_def split: if_splits sum.splits prod.splits)

lemma launch_guard_fails:
  assumes "testerNode t \<noteq> None"
    and "c2 \<noteq> ArgUndefined \<or> (a2 \<noteq> ArgUndefined \<and> a2 \<noteq> ArgNull)"
  shows "launch a2 c2 child2 (t, w) = (Inl (Error ''Test node already launched!''), t, w)"
  using assms by (auto simp: launch_def Let_def)

lemma perform_testerNode:
  assumes "testerNode (fst s) \<noteq> None"
  shows "testerNode (fst (perform k s)) = testerNode (fst s)"
proof (cases k)
  case (AddDomain d ags cn)
  then show ?thesis
    by (simp add: addDomain_def domainConfigs_set_def Let_def)
next
  case (Interact d agent random)
  then show ?thesis
    by (simp add: interact_def Let_def split: property.splits)
next
  case (Launch a c child)
  with assms show ?thesis
    by (simp add: launch_def Let_def)
qed

lemma performAll_testerNode:
  assumes "testerNode (fst s) \<noteq> None"
  shows "testerNode (fst (performAll calls s)) = testerNode (fst s)"
  using assms unfolding performAll_def
proof (induction calls arbitrary: s)
  case Nil
  then show ?case by simp
next
  case (Cons k calls)
  have "testerNode (fst (perform k s)) = testerNode (fst s)"
    using Cons.prems by (rule perform_testerNode)
  with Cons show ?case by simp
qed

text \<open>
  C3, as the code has it. Once a \<open>launch\<close> has returned, the runner tracks the process
  it spawned, and no call but \<open>tearDown\<close> changes that: after any calls of
  \<open>addDomain\<close>, \<open>interact\<close> and \<open>launch\<close>, and whatever the world has become, a
  \<open>launch\<close> that is given a callback throws the error of the guard and leaves the
  runner and the world as they were: no ledger call, no directory, no process, no timer.
\<close>

theorem launch_twice:
  assumes "launch a c child s = (Inr (), s')"
    and "c2 \<noteq> ArgUndefined \<or> (a2 \<noteq> ArgUndefined \<and> a2 \<noteq> ArgNull)"
  shows "launch a2 c2 child2 (fst (performAll calls s'), w) =
           (Inl (Error ''Test node already launched!''), fst (performAll calls s'), w)"
proof -
  have "testerNode (fst s') \<noteq> None"
    using assms(1) by (rule launch_tracks)
  then have "testerNode (fst (performAll calls s')) \<noteq> None"
    by (simp add: performAll_testerNode)
  then show ?thesis
    using assms(2) by (rule launch_guard_fails)
qed

theorem launch_twice_witness:
  "launch (ArgNumber 5000) (ArgFunction 0) (Some 4242) run_added = (Inr (), run_launched)
   \<and> ArgFunction 1 \<noteq> ArgUndefined \<and> ArgFunction 1 \<noteq> ArgNull
   \<and> launch (ArgFunction 1) ArgUndefined (Some 4243)
        (fst (performAll [AddDomain ''other'' None (ConstitutionObject echo),
                          Interact ''local'' ''a0'' ''0.4fzyo82mvyr''] run_launched),
         snd (performAll [AddDomain ''other'' None (ConstitutionObject echo),
                          Interact ''local'' ''a0'' ''0.4fzyo82mvyr''] run_launched)) =
       (Inl (Error ''Test node already launched!''),
        fst (performAll [AddDomain ''other'' None (ConstitutionObject echo),
                         Interact ''local'' ''a0'' ''0.4fzyo82mvyr''] run_launched),
        snd (performAll [AddDomain ''other'' None (ConstitutionObject echo),
                         Interact ''local'' ''a0'' ''0.4fzyo82mvyr''] run_launched))
   \<and> launch (ArgFunction 1) ArgUndefined (Some 4243) run_launched =
       (Inl (Error ''Test node already launched!''), run_launched)"
proof -
  have h: "launch (ArgNumber 5000) (ArgFunction 0) (Some 4242) run_added = (Inr (), run_launched)"
    by (simp add: run_launched_def launch_run_added)
  have n: "performAll [] run_launched = run_launched"
    by (simp add: performAll_def)
  show ?thesis
    using launch_twice [OF h, of ArgUndefined "ArgFunction 1" "Some 4243"
        "[AddDomain ''other'' None (ConstitutionObject echo),
          Interact ''local'' ''a0'' ''0.4fzyo82mvyr'']"
        "snd (performAll [AddDomain ''other'' None (ConstitutionObject echo),
                          Interact ''local'' ''a0'' ''0.4fzyo82mvyr''] run_launched)"]
      launch_twice [OF h, of ArgUndefined "ArgFunction 1" "Some 4243" "[]" "snd run_launched"]
      h n
    by simp
qed

text \<open>
  A \<open>launch\<close> that threw tracks no process: in the example run, a \<open>launch\<close> without
  arguments throws a \<^verbatim>\<open>TypeError\<close> and the \<open>launch\<close> after it returns.
\<close>

lemma launch_after_failed_launch:
  "launch ArgUndefined ArgUndefined (Some 4242) run_added = (Inl TypeError, run_added)
   \<and> fst (launch (ArgNumber 5000) (ArgFunction 0) (Some 4242)
             (snd (launch ArgUndefined ArgUndefined (Some 4242) run_added))) = Inr ()"
proof -
  have "launch ArgUndefined ArgUndefined (Some 4242) run_added = (Inl TypeError, run_added)"
    by (simp add: launch_def)
  then show ?thesis
    by (simp add: launch_run_added)
qed

text \<open>
  C3 as stated fails: \<open>tearDown\<close> empties the tracked process, so a second \<open>launch\<close>
  after it passes the guard. In the example run it calls \<^verbatim>\<open>pskdb.startDB\<close> again and
  then throws \<^verbatim>\<open>EEXIST\<close> from \<^verbatim>\<open>mkdirSync\<close>, the directory \<^verbatim>\<open>nodes\<close> being still
  there.
\<close>

theorem launch_after_tearDown:
  "fst (launch (ArgNumber 5000) (ArgFunction 0) (Some 4242) run_added) = Inr ()
   \<and> fst (tearDown None run_launched) = Inr ()
   \<and> fst (launch (ArgNumber 5000) (ArgFunction 0) (Some 4243) run_torn) = Inl (SystemError EEXIST)
   \<and> ledger (snd (snd (launch (ArgNumber 5000) (ArgFunction 0) (Some 4243) run_torn)))
       = ledger (snd run_torn) @ [StartDB ''/tmp/psk_a1b2c3/conf'']"
  unfolding run_torn_def tearDown_run_launched
  unfolding run_launched_def launch_run_added
  by (simp add: launch_def Let_def run_added_eq path_defs fs_defs)

text \<open>
  C1 fails on the code: \<^verbatim>\<open>process.kill\<close> is called outside any \<^verbatim>\<open>try\<close>, so when
  the tracked child has already ended \<open>tearDown\<close> throws \<^verbatim>\<open>ESRCH\<close>; the runner still
  tracks the child and no cleanup is scheduled. With the child alive, or with no child
  tracked, the same call returns.
\<close>

theorem tearDown_throws_on_dead_child:
  "tearDown None run_child_exited = (Inl (SystemError ESRCH), run_child_exited)
   \<and> testerNode (fst run_child_exited) = Some (ChildProcess (Some 4242))
   \<and> running (snd run_child_exited) = []
   \<and> fst (tearDown None run_launched) = Inr ()
   \<and> fst (tearDown None run_added) = Inr ()"
proof -
  have "fst (tearDown None run_added) = Inr ()"
    by (simp add: tearDown_def run_added_eq)
  moreover have "fst (tearDown None run_launched) = Inr ()"
    by (simp add: tearDown_run_launched)
  ultimately show ?thesis
    by (simp add: run_child_exited_def run_launched_def launch_run_added tearDown_def
        process_kill_def)
qed

text \<open>When \<open>tearDown\<close> throws: a child is tracked that has no pid or is not running.\<close>

lemma tearDown_throws_iff:
  "(\<exists>e. fst (tearDown exitStatus (t, w)) = Inl e) \<longleftrightarrow>
     (\<exists>node. testerNode t = Some node
        \<and> (case pid node of None \<Rightarrow> True | Some n \<Rightarrow> n \<notin> set (running w)))"
  by (auto simp: tearDown_def process_kill_def Let_def split: option.splits)

section \<open>interact\<close>

text \<open>
  C8 fails on the code for a name that \<^verbatim>\<open>Object.prototype\<close> defines: the lookup
  \<^verbatim>\<open>domainConfigs[domain]\<close> finds the inherited value, the test against
  \<^verbatim>\<open>undefined\<close> passes, and \<^verbatim>\<open>path.join\<close> throws a \<^verbatim>\<open>TypeError\<close> that names
  neither the domain nor the known domains. Another unknown name gets the error with
  both.
\<close>

theorem interact_inherited_name:
  "interact ''remote'' ''a0'' ''0.4fzyo82mvyr'' run_added =
     (Inl (Error ''Could not find domain remote in local''), run_added)
   \<and> interact ''constructor'' ''a0'' ''0.4fzyo82mvyr'' run_added = (Inl TypeError, run_added)"
  unfolding run_added_eq
  by (simp add: interact_def domainConfigs_get_def ObjectPrototype_def Object_keys_def
      isArrayIndex_def isDigit_def)

text \<open>
  For a name that the prototype chain of \<^verbatim>\<open>domainConfigs\<close> does not know, \<open>interact\<close>
  throws exactly when the name is not registered, and the message holds the name and the
  keys of \<^verbatim>\<open>domainConfigs\<close>, which are the registered names.
\<close>

lemma interact_unknown_domain:
  assumes "domainConfigs_prototype t = None" and "domain \<notin> set ObjectPrototype"
  shows "fst (interact domain agent random (t, w)) =
           (case map_of (domainConfigs t) domain of
              None \<Rightarrow> Inl (Error (''Could not find domain '' @ domain @ '' in ''
                                  @ join '', '' (Object_keys (domainConfigs t))))
            | Some dc \<Rightarrow> Inr (NodeInteractionSpace agent (inbound dc)
                                (path_join [outbound dc, substr random 2 9])))"
  using assms
  by (simp add: interact_def domainConfigs_get_def Let_def split: option.splits)

lemma set_Object_keys: "set (Object_keys ps) = fst ` set ps"
  by (auto simp: Object_keys_def)

section \<open>Provisioning\<close>

lemma ledger_registerAgents:
  "ledger (foldl (registerAgent cf) w ags) = ledger w @ concat (map (agentTransaction cf) ags)"
  by (induction ags arbitrary: w) (simp_all add: registerAgent_def agentTransaction_def)

lemma onHandler_agentTransactions:
  "filter (onHandler (DBHandler cf)) (concat (map (agentTransaction cf) ags))
     = concat (map (agentTransaction cf) ags)"
  by (induction ags) (simp_all add: agentTransaction_def)

lemma commits_agentTransactions:
  "length (filter (\<lambda>c. c = Commit (DBHandler cf)) (concat (map (agentTransaction cf) ags)))
     = length ags"
  by (induction ags) (simp_all add: agentTransaction_def)

lemma buildDomainConfiguration_ledger:
  assumes "buildDomainConfiguration dc w = (Inr (), w')" and "agents dc = Some ags"
  shows "\<exists>cfile. ledger w' = ledger w @
            [BeginTransaction Blockchain, Lookup Blockchain ''DomainReference'' (name dc),
             DomainInit ''system'' (name dc), SetWorkspace (workspace dc), SetConstitution cfile,
             AddLocalInterface ''local'' (inbound dc), Add Blockchain ''DomainReference'' (name dc),
             Commit Blockchain]
            @ (if ags = [] then [] else [CreateDBHandler (conf dc)])
            @ concat (map (agentTransaction (conf dc)) ags)"
  using assms
  by (auto simp: buildDomainConfiguration_def Let_def ledger_registerAgents
      split: sum.splits prod.splits)

text \<open>
  C6. When the provisioning of a domain whose descriptor lists the agents \<open>ags\<close> returns,
  the calls it has added to the ledger, restricted to the handler of the domain, are the
  four calls begin, lookup, add, commit for each agent in the order of the list, and the
  handler has been committed once per agent.
\<close>

theorem agents_registered_in_order:
  assumes "buildDomainConfiguration dc w = (Inr (), w')" and "agents dc = Some ags"
  shows "take (length (ledger w)) (ledger w') = ledger w
         \<and> filter (onHandler (DBHandler (conf dc))) (drop (length (ledger w)) (ledger w'))
             = concat (map (agentTransaction (conf dc)) ags)
         \<and> length (filter (\<lambda>c. c = Commit (DBHandler (conf dc)))
                     (drop (length (ledger w)) (ledger w'))) = length ags"
proof -
  obtain cfile where l: "ledger w' = ledger w @
            [BeginTransaction Blockchain, Lookup Blockchain ''DomainReference'' (name dc),
             DomainInit ''system'' (name dc), SetWorkspace (workspace dc), SetConstitution cfile,
             AddLocalInterface ''local'' (inbound dc), Add Blockchain ''DomainReference'' (name dc),
             Commit Blockchain]
            @ (if ags = [] then [] else [CreateDBHandler (conf dc)])
            @ concat (map (agentTransaction (conf dc)) ags)"
    using buildDomainConfiguration_ledger [OF assms] by blast
  show ?thesis
    unfolding l
    by (simp add: onHandler_agentTransactions commits_agentTransactions)
qed

lemma build_three_agents:
  "buildDomainConfiguration three_agents world_nodes =
     (Inr (),
      world_nodes\<lparr>fs := Dir [(''tmp'', Dir [(''psk_a1b2c3'', Dir [(''nodes'', Dir [(''local'', Dir [])])])])],
        ledger := [StartDB ''/tmp/psk_a1b2c3/conf'',
          BeginTransaction Blockchain, Lookup Blockchain ''DomainReference'' ''local'',
          DomainInit ''system'' ''local'', SetWorkspace ''/tmp/psk_a1b2c3/nodes/local'',
          SetConstitution ''/srv/constitution.js'',
          AddLocalInterface ''local'' ''/tmp/psk_a1b2c3/nodes/local/inbound'',
          Add Blockchain ''DomainReference'' ''local'', Commit Blockchain,
          CreateDBHandler ''/tmp/psk_a1b2c3/nodes/local/conf'']
          @ agentTransaction ''/tmp/psk_a1b2c3/nodes/local/conf'' ''a0''
          @ agentTransaction ''/tmp/psk_a1b2c3/nodes/local/conf'' ''a1''
          @ agentTransaction ''/tmp/psk_a1b2c3/nodes/local/conf'' ''a2''\<rparr>)"
  by (simp add: buildDomainConfiguration_def three_agents_def world_nodes_def world0_def
      registerAgent_def agentTransaction_def path_defs fs_defs)

theorem agents_registered_in_order_witness:
  "fst (buildDomainConfiguration three_agents world_nodes) = Inr ()
   \<and> agents three_agents = Some [''a0'', ''a1'', ''a2'']
   \<and> filter (onHandler (DBHandler ''/tmp/psk_a1b2c3/nodes/local/conf''))
        (drop (length (ledger world_nodes)) (ledger (snd (buildDomainConfiguration three_agents world_nodes))))
      = agentTransaction ''/tmp/psk_a1b2c3/nodes/local/conf'' ''a0''
        @ agentTransaction ''/tmp/psk_a1b2c3/nodes/local/conf'' ''a1''
        @ agentTransaction ''/tmp/psk_a1b2c3/nodes/local/conf'' ''a2''
   \<and> length (filter (\<lambda>c. c = Commit (DBHandler ''/tmp/psk_a1b2c3/nodes/local/conf''))
        (drop (length (ledger world_nodes)) (ledger (snd (buildDomainConfiguration three_agents world_nodes))))) = 3"
proof -
  have f: "fst (buildDomainConfiguration three_agents world_nodes) = Inr ()"
    by (simp add: build_three_agents)
  then have h: "buildDomainConfiguration three_agents world_nodes =
             (Inr (), snd (buildDomainConfiguration three_agents world_nodes))"
    by (metis prod.collapse)
  have a: "agents three_agents = Some [''a0'', ''a1'', ''a2'']"
    by (simp add: three_agents_def)
  have c: "conf three_agents = ''/tmp/psk_a1b2c3/nodes/local/conf''"
    by (simp add: three_agents_def)
  show ?thesis
    using agents_registered_in_order [OF h a] a c f
    by simp
qed

section \<open>The generated constitution\<close>

lemma typeof_object: "typeof v = ''object'' \<longleftrightarrow> (\<exists>j. v = Object j)"
  by (cases v) (auto simp: typeof_def split: primitive.splits)

lemma pushProperty_typeof:
  "pushProperty os f (prop, v) =
     f @ [nl os @ tab os @ prop @ '': ''
          @ (case v of Object j \<Rightarrow> stringify j | NonObject x \<Rightarrow> toString x)]"
  by (simp add: pushProperty_def split: jsvalue.splits)

text \<open>
  C5 fails on the code for a property whose value is a string: the branch for values that
  are not objects writes \<^verbatim>\<open>toString()\<close> of the value, so the string \<^verbatim>\<open>flow\<close> is
  written without quotes, while the object beside it is written as a literal.
\<close>

theorem createConstitution_string_property:
  "createConstitution ''/tmp/psk_a1b2c3/nodes'' simpleSwarm None (fs world_nodes) =
     Inr (''/tmp/psk_a1b2c3/nodes/constitution.js'',
          Dir [(''tmp'', Dir [(''psk_a1b2c3'', Dir [(''nodes'', Dir [(''constitution.js'',
            File (''$$.swarms.describe('' @ [CHR 0x27] @ ''simpleSwarm'' @ [CHR 0x27] @ '', {'' @ [CHR 0x0A]
                  @ ''  type: flow,'' @ [CHR 0x0A]
                  @ ''  public: {'' @ [CHR 0x22] @ ''a1'' @ [CHR 0x22] @ '':'' @ [CHR 0x22] @ ''int'' @ [CHR 0x22]
                  @ '','' @ [CHR 0x22] @ ''result'' @ [CHR 0x22] @ '':'' @ [CHR 0x22] @ ''int'' @ [CHR 0x22] @ ''},'' @ [CHR 0x0A]
                  @ ''  begin: function(a1,a2){ this.result = a1 + a2; }'' @ [CHR 0x0A]
                  @ ''});''))])])])])"
  by (simp add: createConstitution_def constitutionContents_def pushSwarm_def pushProperty_def
      Object_assign_def simpleSwarm_def world_nodes_def world0_def quote_def quoteChar_def
      path_defs fs_defs)


section \<open>Words and keys\<close>

lemma split_nonempty [simp]: "split sep s \<noteq> []"
  by (induction s) (auto split: list.splits)



lemma toLowerCaseChar_idem [simp]: "toLowerCaseChar (toLowerCaseChar c) = toLowerCaseChar c"
  by (auto simp: toLowerCaseChar_def Let_def of_char_of)

lemma toLowerCaseChar_upper [simp]: "toLowerCaseChar (toUpperCaseChar c) = toLowerCaseChar c"
proof -
  have "char_of (of_char c - (32::nat) + 32) = c" if "97 \<le> (of_char c :: nat)"
  proof -
    have "of_char c - (32::nat) + 32 = of_char c" using that by simp
    then show ?thesis by (simp only: char_of_char)
  qed
  then show ?thesis
    by (auto simp: toLowerCaseChar_def toUpperCaseChar_def Let_def of_char_of)
qed







section \<open>Normalised paths\<close>

lemma split_no_sep: "sep \<notin> set s \<Longrightarrow> split sep s = [s]"
  by (induction s) auto

lemma split_append: "split sep (a @ sep # b) = split sep a @ split sep b"
proof (induction a)
  case Nil
  then show ?case by simp
next
  case (Cons c a)
  obtain w ws where "split sep a = w # ws"
    by (cases "split sep a") simp_all
  with Cons show ?case by simp
qed

lemma split_sep_free: "w \<in> set (split sep s) \<Longrightarrow> sep \<notin> set w"
  by (induction s arbitrary: w) (auto split: list.splits if_splits)

lemma join_snoc: "join sep (xs @ [k]) = (if xs = [] then k else join sep xs @ sep @ k)"
  by (induction sep xs rule: join.induct) auto

lemma join_nonempty: "xs \<noteq> [] \<Longrightarrow> \<forall>x\<in>set xs. x \<noteq> [] \<Longrightarrow> join sep xs \<noteq> []"
  by (induction sep xs rule: join.induct) auto

lemma split_join:
  "xs \<noteq> [] \<Longrightarrow> \<forall>x\<in>set xs. c \<notin> set x \<Longrightarrow> split c (join [c] xs) = xs"
proof (induction "[c]" xs rule: join.induct)
  case 1
  then show ?case by simp
next
  case (2 w)
  then show ?case by (simp add: split_no_sep)
next
  case (3 w v ws)
  have "split c (w @ c # join [c] (v # ws)) = split c w @ split c (join [c] (v # ws))"
    by (rule split_append)
  with 3 show ?case by (simp add: split_no_sep)
qed

lemma normalizeStep_segment: "segmentName k \<Longrightarrow> normalizeStep al res k = k # res"
  by (simp add: normalizeStep_def segmentName_def)

lemma normalizeStep_empty [simp]: "normalizeStep al res [] = res"
  by (simp add: normalizeStep_def)

lemma split_trailing: "split sep (a @ [sep]) = split sep a @ [[]]"
  using split_append [of sep a "[]"] by simp

lemma foldl_normalizeStep_segments:
  "\<forall>s \<in> set xs. segmentName s \<Longrightarrow> foldl (normalizeStep al) T xs = rev xs @ T"
  by (induction xs arbitrary: T) (simp_all add: normalizeStep_segment)

lemma join_Cons: "ws \<noteq> [] \<Longrightarrow> join sep (w # ws) = w @ sep @ join sep ws"
  by (cases ws) simp_all

lemma join_split: "join [c] (split c s) = s"
proof (induction s)
  case Nil
  then show ?case by simp
next
  case (Cons a s)
  obtain w ws where w: "split c s = w # ws"
    by (cases "split c s") simp_all
  show ?case
  proof (cases "a = c")
    case True
    then show ?thesis using Cons by (simp add: join_Cons)
  next
    case False
    have "join [c] ((a # w) # ws) = a # join [c] (w # ws)"
      by (cases ws) simp_all
    with False w Cons show ?thesis by simp
  qed
qed

lemma join_append:
  "xs \<noteq> [] \<Longrightarrow> ys \<noteq> [] \<Longrightarrow> join sep (xs @ ys) = join sep xs @ sep @ join sep ys"
  by (induction sep xs rule: join.induct) (simp_all add: join_Cons)

lemma plainPath_segments: "plainPath k \<Longrightarrow> \<forall>s \<in> set (split (CHR ''/'') k). segmentName s"
  by (simp add: plainPath_def list_all_iff)

lemma segmentName_plainPath: "segmentName k \<Longrightarrow> plainPath k"
  by (simp add: plainPath_def segmentName_def split_no_sep)

lemma plainPath_nonempty: "plainPath k \<Longrightarrow> k \<noteq> []"
  by (auto simp: plainPath_def segmentName_def)

lemma plainPath_last:
  assumes "plainPath k"
  shows "last k \<noteq> CHR ''/''"
proof
  assume l: "last k = CHR ''/''"
  have "k \<noteq> []" using assms by (rule plainPath_nonempty)
  then have "k = butlast k @ [CHR ''/'']"
    using l by (metis append_butlast_last_id)
  then have "split (CHR ''/'') k = split (CHR ''/'') (butlast k) @ [[]]"
    using split_trailing [of "CHR ''/''" "butlast k"] by simp
  then have "[] \<in> set (split (CHR ''/'') k)" by simp
  with assms show False
    by (auto simp: plainPath_def list_all_iff segmentName_def)
qed

text \<open>
  Normalising a path that ends in a plain path: the plain path is kept as it is, after
  what the normalisation makes of the part before it.
\<close>

lemma normalize_plain:
  assumes "P \<noteq> []" and "plainPath k"
  shows "normalize (P @ CHR ''/'' # k) =
           ((if hd P = CHR ''/'' then ''/'' else [])
            @ (if foldl (normalizeStep (hd P \<noteq> CHR ''/'')) [] (split (CHR ''/'') P) = [] then []
               else join ''/'' (rev (foldl (normalizeStep (hd P \<noteq> CHR ''/'')) [] (split (CHR ''/'') P))) @ ''/''))
           @ k"
proof -
  let ?S = "foldl (normalizeStep (hd P \<noteq> CHR ''/'')) [] (split (CHR ''/'') P)"
  have k: "k \<noteq> []"
    using assms(2) by (rule plainPath_nonempty)
  have h: "hd (P @ CHR ''/'' # k) = hd P"
    using assms(1) by simp
  have l: "last (P @ CHR ''/'' # k) \<noteq> CHR ''/''"
    using plainPath_last [OF assms(2)] k by simp
  have s: "split (CHR ''/'') (P @ CHR ''/'' # k) = split (CHR ''/'') P @ split (CHR ''/'') k"
    by (rule split_append)
  have f: "foldl (normalizeStep (hd P \<noteq> CHR ''/'')) ?S (split (CHR ''/'') k)
             = rev (split (CHR ''/'') k) @ ?S"
    using plainPath_segments [OF assms(2)] by (rule foldl_normalizeStep_segments)
  have j: "join ''/'' (split (CHR ''/'') k) = k"
    by (rule join_split)
  have n: "normalizeString (P @ CHR ''/'' # k) (hd P \<noteq> CHR ''/'')
             = (if ?S = [] then k else join ''/'' (rev ?S) @ ''/'' @ k)"
  proof (cases "?S = []")
    case True
    then show ?thesis
      unfolding normalizeString_def s foldl_append f by (simp add: j)
  next
    case False
    then have "join ''/'' (rev ?S @ split (CHR ''/'') k) = join ''/'' (rev ?S) @ ''/'' @ k"
      by (simp add: join_append j)
    with False show ?thesis
      unfolding normalizeString_def s foldl_append f by simp
  qed
  have ne: "normalizeString (P @ CHR ''/'' # k) (hd P \<noteq> CHR ''/'') \<noteq> []"
    using k by (simp add: n)
  show ?thesis
    unfolding normalize_def Let_def h
    using l ne n by simp
qed

text \<open>
  The workspace of a plain key is the folder \<^verbatim>\<open>nodes\<close> of the root, a slash and the
  key.
\<close>

lemma path_join_nodes_plain:
  assumes "plainPath k"
  shows "path_join [root, ''nodes'', k] = path_join [root, ''nodes''] @ ''/'' @ k"
proof -
  have k: "k \<noteq> []"
    using assms by (rule plainPath_nonempty)
  show ?thesis
  proof (cases "root = []")
    case True
    have a: "path_join [root, ''nodes'', k] = normalize (''nodes'' @ CHR ''/'' # k)"
      using True k by (simp add: path_join_def)
    have b: "path_join [root, ''nodes''] = ''nodes''"
      using True by (simp add: path_defs)
    have "normalize (''nodes'' @ CHR ''/'' # k) = ''nodes/'' @ k"
      using normalize_plain [of "''nodes''" k] assms by (simp add: normalizeStep_def)
    with a b show ?thesis by simp
  next
    case False
    let ?P = "root @ ''/nodes''"
    let ?S0 = "foldl (normalizeStep (hd root \<noteq> CHR ''/'')) [] (split (CHR ''/'') root)"
    have hd: "hd ?P = hd root"
      using False by simp
    have sp: "split (CHR ''/'') ?P = split (CHR ''/'') root @ [''nodes'']"
      using split_append [of "CHR ''/''" root "''nodes''"] by simp
    have S: "foldl (normalizeStep (hd ?P \<noteq> CHR ''/'')) [] (split (CHR ''/'') ?P) = ''nodes'' # ?S0"
      unfolding hd sp by (simp add: normalizeStep_def)
    have J: "normalizeString ?P (hd ?P \<noteq> CHR ''/'') = join ''/'' (rev ?S0 @ [''nodes''])"
      unfolding normalizeString_def S by simp
    have Jne: "join ''/'' (rev ?S0 @ [''nodes'']) \<noteq> []"
      by (simp add: join_snoc)
    have N: "normalize ?P = (if hd ?P = CHR ''/'' then ''/'' else []) @ join ''/'' (rev ?S0 @ [''nodes''])"
      unfolding normalize_def Let_def J using Jne by simp
    have a: "path_join [root, ''nodes'', k] = normalize (?P @ CHR ''/'' # k)"
      using False k by (simp add: path_join_def)
    have b: "path_join [root, ''nodes''] = normalize ?P"
      using False by (simp add: path_join_def)
    have "normalize (?P @ CHR ''/'' # k) =
            ((if hd ?P = CHR ''/'' then ''/'' else []) @ join ''/'' (rev ?S0 @ [''nodes'']) @ ''/'') @ k"
      using normalize_plain [of ?P k] assms unfolding S by simp
    then show ?thesis
      unfolding a b N by simp
  qed
qed

section \<open>The descriptors of a runner\<close>

lemma addDomain_rootFolder [simp]: "rootFolder (addDomain d ags cn t) = rootFolder t"
  by (simp add: addDomain_def domainConfigs_set_def Let_def)

lemma set_update_subset: "set (AList.update k v al) \<subseteq> insert (k, v) (set al)"
  by (induction al) auto

lemma addDomain_derived: "derived t \<Longrightarrow> derived (addDomain d ags cn t)"
  unfolding derived_def addDomain_def domainConfigs_set_def Let_def
  by (auto dest!: set_mp [OF set_update_subset])

lemma addDomains_rootFolder [simp]: "rootFolder (addDomains calls t) = rootFolder t"
  unfolding addDomains_def
  by (induction calls arbitrary: t) (simp_all add: case_prod_beta)

lemma addDomains_derived: "derived t \<Longrightarrow> derived (addDomains calls t)"
  unfolding addDomains_def
  by (induction calls arbitrary: t) (simp_all add: case_prod_beta addDomain_derived)

lemma derived_new: "domainConfigs t = [] \<Longrightarrow> domainConfigs_prototype t = None \<Longrightarrow> derived t"
  by (simp add: derived_def)

lemma derived_workspace:
  assumes "derived t" and "domainConfigs_get t d = Descriptor dc"
  shows "workspace dc = path_join [rootFolder t, ''nodes'', createKey d]"
proof (cases "map_of (domainConfigs t) d")
  case None
  with assms(2) have "d = ''__proto__'' \<and> domainConfigs_prototype t = Some dc"
    by (auto simp: domainConfigs_get_def split: option.splits if_splits)
  with assms(1) show ?thesis by (simp add: derived_def)
next
  case (Some dc')
  with assms(2) have "dc' = dc" by (simp add: domainConfigs_get_def)
  with Some have "(d, dc) \<in> set (domainConfigs t)" by (simp add: map_of_SomeD)
  with assms(1) show ?thesis by (auto simp: derived_def)
qed


text \<open>
  C2, as the code has it. On a runner that starts with no domain, after any sequence of
  \<open>addDomain\<close> calls, the descriptors of two registered ASCII names whose keys are plain
  paths have distinct workspaces exactly when the keys are distinct.
\<close>

theorem workspaces_distinct:
  assumes "domainConfigs t0 = []" and "domainConfigs_prototype t0 = None"
    and "domainConfigs_get (addDomains calls t0) d1 = Descriptor dc1"
    and "domainConfigs_get (addDomains calls t0) d2 = Descriptor dc2"
    and "isASCII d1" and "isASCII d2"
    and "plainPath (createKey d1)" and "plainPath (createKey d2)"
  shows "workspace dc1 \<noteq> workspace dc2 \<longleftrightarrow> createKey d1 \<noteq> createKey d2"
proof -
  have d: "derived (addDomains calls t0)"
    using assms(1,2) by (simp add: derived_new addDomains_derived)
  have w1: "workspace dc1 = path_join [rootFolder t0, ''nodes''] @ ''/'' @ createKey d1"
    using derived_workspace [OF d assms(3)] path_join_nodes_plain [OF assms(7)] by simp
  have w2: "workspace dc2 = path_join [rootFolder t0, ''nodes''] @ ''/'' @ createKey d2"
    using derived_workspace [OF d assms(4)] path_join_nodes_plain [OF assms(8)] by simp
  show ?thesis
    by (simp add: w1 w2)
qed

lemmas runner_defs = addDomains_def addDomain_def domainConfigs_set_def domainConfigs_get_def
  run_made_def

lemma run_two_domains_get:
  "domainConfigs_get run_two_domains ''local'' =
     Descriptor \<lparr> name = ''local'', agents = None,
       constitution = ConstitutionPath ''/srv/constitution.js'',
       workspace = ''/tmp/psk_a1b2c3/nodes/local'',
       conf = ''/tmp/psk_a1b2c3/nodes/local/conf'',
       inbound = ''/tmp/psk_a1b2c3/nodes/local/inbound'',
       outbound = ''/tmp/psk_a1b2c3/nodes/local/outbound'' \<rparr>"
  "domainConfigs_get run_two_domains ''My Domain'' =
     Descriptor \<lparr> name = ''My Domain'', agents = None,
       constitution = ConstitutionPath ''/srv/constitution.js'',
       workspace = ''/tmp/psk_a1b2c3/nodes/myDomain'',
       conf = ''/tmp/psk_a1b2c3/nodes/myDomain/conf'',
       inbound = ''/tmp/psk_a1b2c3/nodes/myDomain/inbound'',
       outbound = ''/tmp/psk_a1b2c3/nodes/myDomain/outbound'' \<rparr>"
  by code_simp+

lemma run_two_domains_keys:
  "createKey ''local'' = ''local''" "createKey ''My Domain'' = ''myDomain''"
  "isASCII ''local''" "isASCII ''My Domain''"
  "plainPath ''local''" "plainPath ''myDomain''"
  by code_simp+

theorem workspaces_distinct_witness:
  "domainConfigs (fst run_made) = [] \<and> domainConfigs_prototype (fst run_made) = None
   \<and> domainConfigs_get run_two_domains ''local'' =
     Descriptor \<lparr> name = ''local'', agents = None,
       constitution = ConstitutionPath ''/srv/constitution.js'',
       workspace = ''/tmp/psk_a1b2c3/nodes/local'',
       conf = ''/tmp/psk_a1b2c3/nodes/local/conf'',
       inbound = ''/tmp/psk_a1b2c3/nodes/local/inbound'',
       outbound = ''/tmp/psk_a1b2c3/nodes/local/outbound'' \<rparr>
   \<and> domainConfigs_get run_two_domains ''My Domain'' =
     Descriptor \<lparr> name = ''My Domain'', agents = None,
       constitution = ConstitutionPath ''/srv/constitution.js'',
       workspace = ''/tmp/psk_a1b2c3/nodes/myDomain'',
       conf = ''/tmp/psk_a1b2c3/nodes/myDomain/conf'',
       inbound = ''/tmp/psk_a1b2c3/nodes/myDomain/inbound'',
       outbound = ''/tmp/psk_a1b2c3/nodes/myDomain/outbound'' \<rparr>
   \<and> isASCII ''local'' \<and> isASCII ''My Domain''
   \<and> createKey ''local'' = ''local'' \<and> createKey ''My Domain'' = ''myDomain''
   \<and> plainPath ''local'' \<and> plainPath ''myDomain''
   \<and> ((''/tmp/psk_a1b2c3/nodes/local'' \<noteq> ''/tmp/psk_a1b2c3/nodes/myDomain'')
        = (''local'' \<noteq> ''myDomain''))"
proof -
  have e: "domainConfigs (fst run_made) = []" "domainConfigs_prototype (fst run_made) = None"
    by (simp_all add: run_made_def)
  note k = run_two_domains_keys
  have p: "plainPath (createKey ''local'')" "plainPath (createKey ''My Domain'')"
    by (simp_all only: k)
  have g: "domainConfigs_get (addDomains [(''local'', None, ConstitutionPath ''/srv/constitution.js''),
                 (''My Domain'', None, ConstitutionPath ''/srv/constitution.js'')] (fst run_made)) ''local'' =
     Descriptor \<lparr> name = ''local'', agents = None,
       constitution = ConstitutionPath ''/srv/constitution.js'',
       workspace = ''/tmp/psk_a1b2c3/nodes/local'',
       conf = ''/tmp/psk_a1b2c3/nodes/local/conf'',
       inbound = ''/tmp/psk_a1b2c3/nodes/local/inbound'',
       outbound = ''/tmp/psk_a1b2c3/nodes/local/outbound'' \<rparr>"
    "domainConfigs_get (addDomains [(''local'', None, ConstitutionPath ''/srv/constitution.js''),
                 (''My Domain'', None, ConstitutionPath ''/srv/constitution.js'')] (fst run_made)) ''My Domain'' =
     Descriptor \<lparr> name = ''My Domain'', agents = None,
       constitution = ConstitutionPath ''/srv/constitution.js'',
       workspace = ''/tmp/psk_a1b2c3/nodes/myDomain'',
       conf = ''/tmp/psk_a1b2c3/nodes/myDomain/conf'',
       inbound = ''/tmp/psk_a1b2c3/nodes/myDomain/inbound'',
       outbound = ''/tmp/psk_a1b2c3/nodes/myDomain/outbound'' \<rparr>"
    using run_two_domains_get by (simp_all add: run_two_domains_def)
  have "(workspace \<lparr> name = ''local'', agents = None,
       constitution = ConstitutionPath ''/srv/constitution.js'',
       workspace = ''/tmp/psk_a1b2c3/nodes/local'',
       conf = ''/tmp/psk_a1b2c3/nodes/local/conf'',
       inbound = ''/tmp/psk_a1b2c3/nodes/local/inbound'',
       outbound = ''/tmp/psk_a1b2c3/nodes/local/outbound'' \<rparr>
     \<noteq> workspace \<lparr> name = ''My Domain'', agents = None,
       constitution = ConstitutionPath ''/srv/constitution.js'',
       workspace = ''/tmp/psk_a1b2c3/nodes/myDomain'',
       conf = ''/tmp/psk_a1b2c3/nodes/myDomain/conf'',
       inbound = ''/tmp/psk_a1b2c3/nodes/myDomain/inbound'',
       outbound = ''/tmp/psk_a1b2c3/nodes/myDomain/outbound'' \<rparr>)
     = (createKey ''local'' \<noteq> createKey ''My Domain'')"
    by (rule workspaces_distinct [OF e g k(3,4) p])
  then have "(''/tmp/psk_a1b2c3/nodes/local'' \<noteq> ''/tmp/psk_a1b2c3/nodes/myDomain'')
        = (''local'' \<noteq> ''myDomain'')"
    by (simp add: k(1,2))
  then show ?thesis
    using e k run_two_domains_get by simp
qed

text \<open>
  Two names with one folded form can have two keys: a space starts a new word, whose
  first letter is put in upper case. And two keys that are not plain paths can have one
  workspace: \<^verbatim>\<open>path.join\<close> normalises what it joins.
\<close>

lemma keys_of_one_folded_name:
  "foldedName ''a b'' = foldedName ''ab'' \<and> createKey ''a b'' = ''aB'' \<and> createKey ''ab'' = ''ab''"
  by code_simp

lemma keys_normalised_together:
  "createKey ''x/.'' = ''x/.'' \<and> createKey ''x'' = ''x''
   \<and> path_join [''/tmp/psk_a1b2c3'', ''nodes'', ''x/.''] = ''/tmp/psk_a1b2c3/nodes/x''
   \<and> path_join [''/tmp/psk_a1b2c3'', ''nodes'', ''x''] = ''/tmp/psk_a1b2c3/nodes/x''"
  by code_simp

text \<open>
  C2 as stated fails: \<open>createKey\<close> puts the first word in lower case, so the names
  \<^verbatim>\<open>A\<close> and \<^verbatim>\<open>a\<close> get the same key and the same workspace.
\<close>

theorem workspaces_collide:
  "domainConfigs_get run_two_cases ''A'' =
     Descriptor \<lparr> name = ''A'', agents = None,
       constitution = ConstitutionPath ''/srv/constitution.js'',
       workspace = ''/tmp/psk_a1b2c3/nodes/a'',
       conf = ''/tmp/psk_a1b2c3/nodes/a/conf'',
       inbound = ''/tmp/psk_a1b2c3/nodes/a/inbound'',
       outbound = ''/tmp/psk_a1b2c3/nodes/a/outbound'' \<rparr>
   \<and> domainConfigs_get run_two_cases ''a'' =
     Descriptor \<lparr> name = ''a'', agents = None,
       constitution = ConstitutionPath ''/srv/constitution.js'',
       workspace = ''/tmp/psk_a1b2c3/nodes/a'',
       conf = ''/tmp/psk_a1b2c3/nodes/a/conf'',
       inbound = ''/tmp/psk_a1b2c3/nodes/a/inbound'',
       outbound = ''/tmp/psk_a1b2c3/nodes/a/outbound'' \<rparr>
   \<and> ''A'' \<noteq> ''a''"
  by code_simp

section \<open>The characters of a key\<close>








section \<open>Trees\<close>

lemma lookup_append:
  "lookup n (p @ q) = (case lookup n p of None \<Rightarrow> None | Some m \<Rightarrow> lookup m q)"
  by (induction n p rule: lookup.induct) (auto split: option.splits)

lemma lookup_modify:
  "lookup n p = Some (Dir es) \<Longrightarrow> lookup (modify p f n) p = Some (Dir (f es))"
proof (induction p arbitrary: n)
  case Nil
  then show ?case by simp
next
  case (Cons s p)
  then show ?case
    by (cases n) (auto simp: AList.update_conv' split: option.splits)
qed

lemma modify_modify: "modify p f (modify p g n) = modify p (f \<circ> g) n"
proof (induction p arbitrary: n)
  case Nil
  then show ?case by (cases n) simp_all
next
  case (Cons s p)
  then show ?case
    by (cases n) (auto simp: AList.update_conv' split: option.splits)
qed

lemma modify_id:
  "lookup n p = Some (Dir es) \<Longrightarrow> f es = es \<Longrightarrow> modify p f n = n"
proof (induction p arbitrary: n)
  case Nil
  then show ?case by simp
next
  case (Cons s p)
  then show ?case
    by (cases n) (auto simp: AList.update_triv split: option.splits)
qed

lemma modify_delete_below:
  "modify q (AList.delete k) (modify (q @ [k]) g n) = modify q (AList.delete k) n"
proof (induction q arbitrary: n)
  case Nil
  then show ?case
    by (cases n) (auto simp: AList.delete_update_same split: option.splits)
next
  case (Cons s q)
  then show ?case
    by (cases n) (auto simp: AList.update_conv' split: option.splits)
qed

lemma wellFormed_update:
  assumes "wellFormed (Dir es)" and "map_of es s = Some m" and "wellFormed m'"
  shows "wellFormed (Dir (AList.update s m' es))"
proof -
  have "set (AList.update s m' es) \<subseteq> insert (s, m') (set es)"
    by (induction es) auto
  moreover have "segmentName s"
    using assms(1,2) by (auto dest: map_of_SomeD)
  ultimately show ?thesis
    using assms(1,3) by (auto simp: AList.distinct_update)
qed

lemma wellFormed_modify:
  assumes "wellFormed n" and "\<And>es. wellFormed (Dir es) \<Longrightarrow> wellFormed (Dir (f es))"
  shows "wellFormed (modify p f n)"
  using assms(1)
proof (induction p arbitrary: n)
  case Nil
  then show ?case by (cases n) (simp_all add: assms(2) del: wellFormed.simps(2))
next
  case (Cons s p)
  show ?case
  proof (cases n)
    case (File c)
    then show ?thesis by simp
  next
    case (Dir es)
    show ?thesis
    proof (cases "map_of es s")
      case None
      with Dir Cons.prems show ?thesis by simp
    next
      case (Some m)
      then have "wellFormed m"
        using Cons.prems Dir by (auto dest: map_of_SomeD)
      then have "wellFormed (modify p f m)" by (rule Cons.IH)
      with Some Dir Cons.prems show ?thesis
        by (simp add: wellFormed_update del: wellFormed.simps(2))
    qed
  qed
qed

lemma wellFormed_delete:
  assumes "wellFormed (Dir es)"
  shows "wellFormed (Dir (AList.delete k es))"
proof -
  have "distinct (map fst (AList.delete k es))"
    using assms by (simp add: AList.distinct_delete)
  moreover have "set (AList.delete k es) \<subseteq> set es"
    by (auto simp: AList.delete_eq)
  ultimately show ?thesis
    using assms by auto
qed

lemma wellFormed_lookup: "wellFormed n \<Longrightarrow> lookup n p = Some m \<Longrightarrow> wellFormed m"
proof (induction n p rule: lookup.induct)
  case (1 n)
  then show ?case by simp
next
  case (2 c s p)
  then show ?case by simp
next
  case (3 es s p)
  then show ?case by (auto split: option.splits dest: map_of_SomeD)
qed

lemma fold_max_ge: "(a::nat) \<le> fold max xs a"
proof (induction xs arbitrary: a)
  case Nil
  then show ?case by simp
next
  case (Cons x xs)
  have "a \<le> max x a" by simp
  also have "\<dots> \<le> fold max xs (max x a)" by (rule Cons.IH)
  finally show ?case by simp
qed

lemma fold_max_member: "(x::nat) \<in> set xs \<Longrightarrow> x \<le> fold max xs a"
proof (induction xs arbitrary: a)
  case Nil
  then show ?case by simp
next
  case (Cons y xs)
  show ?case
  proof (cases "x = y")
    case True
    have "x \<le> max y a" using True by simp
    also have "\<dots> \<le> fold max xs (max y a)" by (rule fold_max_ge)
    finally show ?thesis by simp
  next
    case False
    with Cons.prems have "x \<in> set xs" by simp
    then have "x \<le> fold max xs (max y a)" by (rule Cons.IH)
    then show ?thesis by simp
  qed
qed

lemma height_child: "(k, c) \<in> set es \<Longrightarrow> height c < height (Dir es)"
proof -
  assume "(k, c) \<in> set es"
  then have "height c \<in> set (map (\<lambda>e. height (snd e)) es)" by force
  then have "height c \<le> fold max (map (\<lambda>e. height (snd e)) es) 0"
    by (rule fold_max_member)
  then show ?thesis by simp
qed

section \<open>Resolving a normalised path\<close>

lemma resolve_snoc: "segmentName k \<Longrightarrow> resolve (P @ CHR ''/'' # k) = resolve P @ [k]"
  by (simp add: resolve_def split_append split_no_sep normalizeStep_segment segmentName_def)

lemma normalizeStep_shape:
  assumes "''..'' \<notin> set os"
  shows "\<exists>os' n'. normalizeStep True (os @ replicate n ''..'') seg = os' @ replicate n' ''..''
                \<and> ''..'' \<notin> set os' \<and> normalizeStep False os seg = os'"
proof (cases "seg = [] \<or> seg = ''.''")
  case True
  then have "normalizeStep True (os @ replicate n ''..'') seg = os @ replicate n ''..''"
    "normalizeStep False os seg = os"
    by (auto simp: normalizeStep_def)
  with assms show ?thesis by blast
next
  case False
  note ord = False
  show ?thesis
  proof (cases "seg = ''..''")
    case False
    with ord have "normalizeStep True (os @ replicate n ''..'') seg = (seg # os) @ replicate n ''..''"
      "normalizeStep False os seg = seg # os"
      by (auto simp: normalizeStep_def)
    moreover have "''..'' \<notin> set (seg # os)" using assms False by simp
    ultimately show ?thesis by blast
  next
    case True
    show ?thesis
    proof (cases os)
      case Nil
      have "normalizeStep True (replicate n ''..'') ''..'' = replicate (Suc n) ''..''"
        by (cases n) (simp_all add: normalizeStep_def)
      moreover have "normalizeStep False [] ''..'' = []"
        by (simp add: normalizeStep_def)
      ultimately have "normalizeStep True (os @ replicate n ''..'') seg = [] @ replicate (Suc n) ''..''
          \<and> ''..'' \<notin> set [] \<and> normalizeStep False os seg = []"
        using Nil True by simp
      then show ?thesis by blast
    next
      case (Cons t ts)
      with assms have t: "t \<noteq> ''..''" "''..'' \<notin> set ts" by auto
      have "normalizeStep True (os @ replicate n ''..'') seg = ts @ replicate n ''..''"
        "normalizeStep False os seg = ts"
        using Cons True t by (simp_all add: normalizeStep_def)
      with t show ?thesis by blast
    qed
  qed
qed

lemma foldl_normalizeStep_shape:
  assumes "''..'' \<notin> set os"
  shows "\<exists>os' n'. foldl (normalizeStep True) (os @ replicate n ''..'') segs = os' @ replicate n' ''..''
                \<and> ''..'' \<notin> set os' \<and> foldl (normalizeStep False) os segs = os'"
  using assms
proof (induction segs arbitrary: os n)
  case Nil
  then show ?case by auto
next
  case (Cons seg segs)
  obtain os1 n1 where s: "normalizeStep True (os @ replicate n ''..'') seg = os1 @ replicate n1 ''..''"
    "''..'' \<notin> set os1" "normalizeStep False os seg = os1"
    using normalizeStep_shape [OF Cons.prems] by blast
  show ?case
    using Cons.IH [OF s(2), of n1] s by simp
qed

lemma normalizeStep_False_dotdot:
  "''..'' \<notin> set os \<Longrightarrow> ''..'' \<notin> set (normalizeStep False os seg)"
  by (auto simp: normalizeStep_def split: list.splits)

lemma foldl_normalizeStep_False_dotdot:
  "''..'' \<notin> set os \<Longrightarrow> ''..'' \<notin> set (foldl (normalizeStep False) os segs)"
  by (induction segs arbitrary: os) (simp_all add: normalizeStep_False_dotdot)

lemma normalizeStep_kept:
  assumes "\<forall>s \<in> set T. s \<noteq> [] \<and> s \<noteq> ''.'' \<and> CHR ''/'' \<notin> set s" and "CHR ''/'' \<notin> set seg"
  shows "\<forall>s \<in> set (normalizeStep al T seg). s \<noteq> [] \<and> s \<noteq> ''.'' \<and> CHR ''/'' \<notin> set s"
  using assms by (auto simp: normalizeStep_def split: list.splits)

lemma foldl_normalizeStep_kept:
  assumes "\<forall>s \<in> set T. s \<noteq> [] \<and> s \<noteq> ''.'' \<and> CHR ''/'' \<notin> set s"
    and "\<forall>seg \<in> set segs. CHR ''/'' \<notin> set seg"
  shows "\<forall>s \<in> set (foldl (normalizeStep al) T segs). s \<noteq> [] \<and> s \<noteq> ''.'' \<and> CHR ''/'' \<notin> set s"
  using assms
proof (induction segs arbitrary: T)
  case Nil
  then show ?case by simp
next
  case (Cons seg segs)
  have f: "CHR ''/'' \<notin> set seg" "\<forall>seg \<in> set segs. CHR ''/'' \<notin> set seg"
    using Cons.prems(2) by simp_all
  have "\<forall>s \<in> set (normalizeStep al T seg). s \<noteq> [] \<and> s \<noteq> ''.'' \<and> CHR ''/'' \<notin> set s"
    using Cons.prems(1) f(1) by (rule normalizeStep_kept)
  then have "\<forall>s \<in> set (foldl (normalizeStep al) (normalizeStep al T seg) segs).
               s \<noteq> [] \<and> s \<noteq> ''.'' \<and> CHR ''/'' \<notin> set s"
    using f(2) by (rule Cons.IH)
  then show ?case by (simp only: foldl_Cons)
qed

lemma stack_of_path:
  "\<exists>os n. foldl (normalizeStep al) [] (split (CHR ''/'') p) = os @ replicate n ''..''
          \<and> foldl (normalizeStep False) [] (split (CHR ''/'') p) = os
          \<and> (\<forall>s \<in> set os. segmentName s)"
proof -
  let ?segs = "split (CHR ''/'') p"
  have free: "\<forall>seg \<in> set ?segs. CHR ''/'' \<notin> set seg"
    by (auto dest: split_sep_free)
  have none: "\<forall>s \<in> set ([] :: string list). s \<noteq> [] \<and> s \<noteq> ''.'' \<and> CHR ''/'' \<notin> set s"
    by simp
  have kept: "\<forall>s \<in> set (foldl (normalizeStep False) [] ?segs). s \<noteq> [] \<and> s \<noteq> ''.'' \<and> CHR ''/'' \<notin> set s"
    using none free by (rule foldl_normalizeStep_kept)
  have nodd: "''..'' \<notin> set (foldl (normalizeStep False) [] ?segs)"
    by (rule foldl_normalizeStep_False_dotdot) simp
  have seg: "\<forall>s \<in> set (foldl (normalizeStep False) [] ?segs). segmentName s"
    using kept nodd by (auto simp: segmentName_def)
  show ?thesis
  proof (cases al)
    case False
    then have "foldl (normalizeStep al) [] ?segs = foldl (normalizeStep False) [] ?segs @ replicate 0 ''..''"
      by simp
    with seg show ?thesis by blast
  next
    case True
    obtain os n where "foldl (normalizeStep True) ([] @ replicate 0 ''..'') ?segs = os @ replicate n ''..''"
      "foldl (normalizeStep False) [] ?segs = os"
      using foldl_normalizeStep_shape [of "[]" 0 ?segs] by auto
    with True seg show ?thesis by auto
  qed
qed

lemma foldl_normalizeStep_dotdots:
  "foldl (normalizeStep False) [] (replicate n ''..'') = []"
  by (induction n) (simp_all add: normalizeStep_def)

lemma resolve_stack:
  assumes "\<forall>s \<in> set os. segmentName s"
    and "a = [] \<or> a = [[]]" and "b = [] \<or> b = [[]]"
  shows "foldl (normalizeStep False) [] (a @ rev (os @ replicate n ''..'') @ b) = os"
proof -
  have "foldl (normalizeStep False) [] a = []"
    using assms(2) by auto
  then have "foldl (normalizeStep False) [] (a @ rev (os @ replicate n ''..'') @ b)
      = foldl (normalizeStep False) (foldl (normalizeStep False) (foldl (normalizeStep False) [] (replicate n ''..'')) (rev os)) b"
    by simp
  also have "\<dots> = foldl (normalizeStep False) os b"
    using assms(1) by (simp add: foldl_normalizeStep_dotdots foldl_normalizeStep_segments)
  also have "\<dots> = os"
    using assms(3) by auto
  finally show ?thesis .
qed

lemma normalize_nonempty: "normalize q \<noteq> []"
  by (simp add: normalize_def Let_def)

lemma resolve_dots: "resolve ''/'' = []" "resolve ''./'' = []" "resolve ''.'' = []" "resolve [] = []"
  by code_simp+

lemma normalize_empty_cases:
  assumes "p \<noteq> []" and "normalizeString p (hd p \<noteq> CHR ''/'') = []"
  shows "normalize p = ''/'' \<or> normalize p = ''./'' \<or> normalize p = ''.''"
  unfolding normalize_def Let_def using assms by simp

lemma normalize_join:
  assumes "p \<noteq> []" and "normalizeString p (hd p \<noteq> CHR ''/'') \<noteq> []"
  shows "normalize p = (if hd p = CHR ''/'' then ''/'' else [])
           @ normalizeString p (hd p \<noteq> CHR ''/'') @ (if last p = CHR ''/'' then ''/'' else [])"
  unfolding normalize_def Let_def using assms by simp

lemma stack_elements:
  assumes "\<forall>s \<in> set os. segmentName s"
  shows "\<forall>x \<in> set (rev (os @ replicate n ''..'')). x \<noteq> [] \<and> CHR ''/'' \<notin> set x"
proof
  fix x
  assume "x \<in> set (rev (os @ replicate n ''..''))"
  then have "x \<in> set os \<or> x = ''..''" by auto
  then show "x \<noteq> [] \<and> CHR ''/'' \<notin> set x"
  proof
    assume "x \<in> set os"
    with assms have "segmentName x" by simp
    then show ?thesis by (simp add: segmentName_def)
  next
    assume "x = ''..''"
    then show ?thesis by simp
  qed
qed

lemma split_framed:
  assumes "split (CHR ''/'') J = R"
  shows "split (CHR ''/'') ((if a then ''/'' else []) @ J @ (if b then ''/'' else []))
           = (if a then [[]] else []) @ R @ (if b then [[]] else [])"
proof -
  have t: "split (CHR ''/'') (J @ ''/'') = R @ [[]]"
    using split_trailing [of "CHR ''/''" J] assms by simp
  show ?thesis
  proof (cases a)
    case True
    then show ?thesis using t assms by (cases b) simp_all
  next
    case False
    then show ?thesis using t assms by (cases b) simp_all
  qed
qed

lemma resolve_normalize: "resolve (normalize p) = resolve p"
proof (cases "p = []")
  case True
  then show ?thesis by (simp add: normalize_def resolve_dots)
next
  case False
  note p = False
  obtain os n where S: "foldl (normalizeStep (hd p \<noteq> CHR ''/'')) [] (split (CHR ''/'') p) = os @ replicate n ''..''"
    and F: "foldl (normalizeStep False) [] (split (CHR ''/'') p) = os"
    and seg: "\<forall>s \<in> set os. segmentName s"
    using stack_of_path [of "hd p \<noteq> CHR ''/''" p] by blast
  have rp: "resolve p = rev os"
    by (simp add: resolve_def F)
  have ns: "normalizeString p (hd p \<noteq> CHR ''/'') = join ''/'' (rev (os @ replicate n ''..''))"
    by (simp only: normalizeString_def S)
  show ?thesis
  proof (cases "os @ replicate n ''..'' = []")
    case True
    then have "normalizeString p (hd p \<noteq> CHR ''/'') = []"
      by (simp add: ns)
    then have "normalize p = ''/'' \<or> normalize p = ''./'' \<or> normalize p = ''.''"
      using p by (intro normalize_empty_cases)
    then have "resolve (normalize p) = []"
      using resolve_dots by auto
    with True rp show ?thesis by simp
  next
    case False
    let ?R = "rev (os @ replicate n ''..'')"
    have ne: "?R \<noteq> []" using False by (simp only: rev_is_Nil_conv not_False_eq_True)
    have el: "\<forall>x \<in> set ?R. x \<noteq> [] \<and> CHR ''/'' \<notin> set x"
      using seg by (rule stack_elements)
    have el1: "\<forall>x \<in> set ?R. x \<noteq> []" and el2: "\<forall>x \<in> set ?R. CHR ''/'' \<notin> set x"
      using el by blast+
    have J: "join ''/'' ?R \<noteq> []"
      using ne el1 by (rule join_nonempty)
    have sJ: "split (CHR ''/'') (join ''/'' ?R) = ?R"
      using ne el2 by (rule split_join)
    have N: "normalize p = (if hd p = CHR ''/'' then ''/'' else [])
              @ join ''/'' ?R @ (if last p = CHR ''/'' then ''/'' else [])"
      using normalize_join [OF p] J by (simp only: ns) simp
    have "split (CHR ''/'') (normalize p) =
            (if hd p = CHR ''/'' then [[]] else []) @ ?R @ (if last p = CHR ''/'' then [[]] else [])"
      unfolding N using sJ by (rule split_framed)
    moreover have "foldl (normalizeStep False) []
            ((if hd p = CHR ''/'' then [[]] else []) @ ?R @ (if last p = CHR ''/'' then [[]] else [])) = os"
      by (rule resolve_stack [OF seg]) simp_all
    ultimately have "foldl (normalizeStep False) [] (split (CHR ''/'') (normalize p)) = os"
      by (simp only:)
    with rp show ?thesis by (simp only: resolve_def)
  qed
qed

lemma path_join_entry:
  assumes "folder \<noteq> []" and "segmentName k"
  shows "path_join [folder, k] \<noteq> [] \<and> resolve (path_join [folder, k]) = resolve folder @ [k]"
proof -
  have "path_join [folder, k] = normalize (folder @ CHR ''/'' # k)"
    using assms by (simp add: path_join_def segmentName_def)
  then show ?thesis
    using assms(2) by (simp add: normalize_nonempty resolve_normalize resolve_snoc)
qed

section \<open>rmDeep on a directory\<close>

lemma rmDeep_forEach_empties:
  assumes IH: "\<And>folder' tr' es'. wellFormed tr' \<Longrightarrow> folder' \<noteq> [] \<Longrightarrow> resolve folder' \<noteq> [] \<Longrightarrow>
      lookup tr' (resolve folder') = Some (Dir es') \<Longrightarrow> height (Dir es') \<le> m \<Longrightarrow>
      rmDeep m folder' tr' =
        Some (None, modify (butlast (resolve folder')) (AList.delete (last (resolve folder'))) tr')"
    and "wellFormed tr" and "folder \<noteq> []"
    and "lookup tr (resolve folder) = Some (Dir es)"
    and "\<forall>e \<in> set es. height (snd e) \<le> m"
  shows "rmDeep_forEach m folder (map fst es) tr = Some (None, modify (resolve folder) (\<lambda>es. []) tr)"
  using assms(2,4,5)
proof (induction es arbitrary: tr)
  case Nil
  have "modify (resolve folder) (\<lambda>es. []) tr = tr"
    using Nil.prems(2) by (rule modify_id) simp
  then show ?case by simp
next
  case (Cons e es)
  obtain k c where e: "e = (k, c)" by (cases e)
  let ?p = "resolve folder"
  let ?cur = "path_join [folder, k]"
  let ?fs2 = "modify ?p (AList.delete k) tr"
  have wd: "wellFormed (Dir (e # es))"
    using Cons.prems(1,2) by (rule wellFormed_lookup)
  then have k: "segmentName k" and kn: "k \<notin> fst ` set es" and wc: "wellFormed c"
    using e by auto
  have cur: "?cur \<noteq> []" "resolve ?cur = ?p @ [k]"
    using path_join_entry [OF assms(3) k] by simp_all
  have lc: "lookup tr (resolve ?cur) = Some c"
    using Cons.prems(2) e by (simp add: cur(2) lookup_append)
  have bl: "butlast (resolve ?cur) = ?p" "last (resolve ?cur) = k"
    by (simp_all add: cur(2))
  have step: "(if (case c of File x \<Rightarrow> False | Dir ds \<Rightarrow> True) then rmDeep m ?cur tr
               else (case unlinkSync tr ?cur of Inl err \<Rightarrow> Some (Some err, tr)
                     | Inr tr' \<Rightarrow> Some (None, tr'))) = Some (None, ?fs2)"
  proof (cases c)
    case (File x)
    then have "unlinkSync tr ?cur = Inr ?fs2"
      using cur(1) lc bl by (simp add: unlinkSync_def)
    with File show ?thesis by simp
  next
    case (Dir ds)
    have "height (Dir ds) \<le> m"
      using Cons.prems(3) e Dir by simp
    moreover have "resolve ?cur \<noteq> []" by (simp add: cur(2))
    moreover have "lookup tr (resolve ?cur) = Some (Dir ds)" using lc Dir by simp
    ultimately have "rmDeep m ?cur tr = Some (None, modify (butlast (resolve ?cur)) (AList.delete (last (resolve ?cur))) tr)"
      using IH [OF Cons.prems(1) cur(1)] by blast
    with Dir bl show ?thesis by simp
  qed
  have ls: "lstatSync_isDirectory tr ?cur = Inr (case c of File x \<Rightarrow> False | Dir ds \<Rightarrow> True)"
    using cur(1) lc by (simp add: lstatSync_isDirectory_def split: fsnode.splits)
  have w2: "wellFormed ?fs2"
    using Cons.prems(1) by (rule wellFormed_modify) (rule wellFormed_delete)
  have "AList.delete k (e # es) = es"
    using e kn by simp
  then have l2: "lookup ?fs2 ?p = Some (Dir es)"
    using lookup_modify [OF Cons.prems(2), of "AList.delete k"] by simp
  have h2: "\<forall>e \<in> set es. height (snd e) \<le> m"
    using Cons.prems(3) by simp
  have "rmDeep_forEach m folder (map fst es) ?fs2 = Some (None, modify ?p (\<lambda>es. []) ?fs2)"
    using w2 l2 h2 by (rule Cons.IH)
  moreover have "modify ?p (\<lambda>es. []) ?fs2 = modify ?p (\<lambda>es. []) tr"
    by (simp add: modify_modify comp_def)
  ultimately have rest: "rmDeep_forEach m folder (map fst es) ?fs2 = Some (None, modify ?p (\<lambda>es. []) tr)"
    by simp
  have "rmDeep_forEach m folder (map fst (e # es)) tr =
          (case (if (case c of File x \<Rightarrow> False | Dir ds \<Rightarrow> True) then rmDeep m ?cur tr
                 else (case unlinkSync tr ?cur of Inl err \<Rightarrow> Some (Some err, tr)
                       | Inr tr' \<Rightarrow> Some (None, tr'))) of
             None \<Rightarrow> None
           | Some (Some err, tr') \<Rightarrow> Some (Some err, tr')
           | Some (None, tr') \<Rightarrow> rmDeep_forEach m folder (map fst es) tr')"
    using e ls by (simp add: Let_def)
  also have "\<dots> = rmDeep_forEach m folder (map fst es) ?fs2"
    by (simp only: step) simp
  finally show ?case using rest by simp
qed

lemma rmDeep_removes:
  assumes "wellFormed tr" and "folder \<noteq> []" and "resolve folder \<noteq> []"
    and "lookup tr (resolve folder) = Some (Dir es)" and "height (Dir es) \<le> n"
  shows "rmDeep n folder tr =
           Some (None, modify (butlast (resolve folder)) (AList.delete (last (resolve folder))) tr)"
  using assms
proof (induction n arbitrary: folder tr es)
  case 0
  then show ?case by simp
next
  case (Suc m)
  let ?p = "resolve folder"
  let ?fs1 = "modify ?p (\<lambda>es. []) tr"
  have ex: "existsSync tr folder"
    using Suc.prems(2,4) by (simp add: existsSync_def)
  have rd: "readdirSync tr folder = Inr (map fst es)"
    using Suc.prems(2,4) by (simp add: readdirSync_def)
  have hs: "\<forall>e \<in> set es. height (snd e) \<le> m"
  proof
    fix e assume "e \<in> set es"
    then have "(fst e, snd e) \<in> set es" by simp
    then have "height (snd e) < height (Dir es)" by (rule height_child)
    with Suc.prems(5) show "height (snd e) \<le> m" by simp
  qed
  have fe: "rmDeep_forEach m folder (map fst es) tr = Some (None, ?fs1)"
    using Suc.IH Suc.prems(1,2,4) hs by (rule rmDeep_forEach_empties)
  have l1: "lookup ?fs1 ?p = Some (Dir [])"
    using lookup_modify [OF Suc.prems(4), of "\<lambda>es. []"] by simp
  have "?p = butlast ?p @ [last ?p]"
    using Suc.prems(3) by simp
  then have "modify (butlast ?p) (AList.delete (last ?p)) ?fs1
               = modify (butlast ?p) (AList.delete (last ?p)) tr"
    using modify_delete_below [of "butlast ?p" "last ?p" "\<lambda>es. []" tr] by simp
  then have rm: "rmdirSync ?fs1 folder = Inr (modify (butlast ?p) (AList.delete (last ?p)) tr)"
    using Suc.prems(2,3) l1 by (simp add: rmdirSync_def)
  show ?case
    by (simp add: ex rd fe rm)
qed

lemma lookup_removed:
  assumes "p \<noteq> []" and "lookup tr p = Some m"
  shows "lookup (modify (butlast p) (AList.delete (last p)) tr) p = None"
proof -
  have p: "p = butlast p @ [last p]" using assms(1) by simp
  then have "lookup tr (butlast p @ [last p]) = Some m" using assms(2) by simp
  then obtain d where d: "lookup tr (butlast p) = Some d" "lookup d [last p] = Some m"
    by (auto simp: lookup_append split: option.splits)
  then obtain es where es: "d = Dir es" by (cases d) simp_all
  have "lookup (modify (butlast p) (AList.delete (last p)) tr) (butlast p)
          = Some (Dir (AList.delete (last p) es))"
    using d(1) es by (simp add: lookup_modify)
  then have "lookup (modify (butlast p) (AList.delete (last p)) tr) (butlast p @ [last p]) = None"
    by (simp add: lookup_append AList.delete_conv')
  with p show ?thesis by simp
qed

lemma rmDeep_absent: "\<not> existsSync tr folder \<Longrightarrow> rmDeep (Suc n) folder tr = Some (None, tr)"
  by simp

lemma rmdirSync_nonempty:
  "folder \<noteq> [] \<Longrightarrow> lookup tr (resolve folder) = Some (Dir (e # es)) \<Longrightarrow>
     rmdirSync tr folder = Inl (SystemError ENOTEMPTY)"
  by (simp add: rmdirSync_def)

text \<open>
  Whenever \<open>rmDeep\<close> returns from a path that exists, the loop over the entries has
  returned a tree where the path is an empty directory, which \<^verbatim>\<open>rmdirSync\<close> removed.
\<close>

lemma rmDeep_removed_empty:
  assumes "existsSync tr folder" and "rmDeep (Suc n) folder tr = Some (None, tr')"
  shows "\<exists>files tr1. readdirSync tr folder = Inr files
           \<and> rmDeep_forEach n folder files tr = Some (None, tr1)
           \<and> lookup tr1 (resolve folder) = Some (Dir [])
           \<and> rmdirSync tr1 folder = Inr tr'"
proof -
  obtain files where rd: "readdirSync tr folder = Inr files"
    using assms by (cases "readdirSync tr folder") simp_all
  obtain tr1 where fe: "rmDeep_forEach n folder files tr = Some (None, tr1)"
    using assms rd
    by (cases "rmDeep_forEach n folder files tr") (auto split: option.splits sum.splits)
  have rm: "rmdirSync tr1 folder = Inr tr'"
    using assms rd fe by (cases "rmdirSync tr1 folder") simp_all
  then have "lookup tr1 (resolve folder) = Some (Dir [])"
    by (auto simp: rmdirSync_def split: if_splits option.splits fsnode.splits)
  with rd fe rm show ?thesis by blast
qed

text \<open>An absolute path in normal form resolves to the names between its slashes.\<close>

lemma absoluteNormalForm_resolve:
  assumes "absoluteNormalForm p"
  shows "p \<noteq> []" and "resolve p = split (CHR ''/'') (tl p)" and "resolve p \<noteq> []"
proof -
  show p: "p \<noteq> []"
    using assms by (simp add: absoluteNormalForm_def)
  have pl: "plainPath (tl p)"
    using assms by (simp add: absoluteNormalForm_def)
  have "p = CHR ''/'' # tl p"
    using assms by (cases p) (simp_all add: absoluteNormalForm_def)
  then have "split (CHR ''/'') p = [] # split (CHR ''/'') (tl p)"
    by (metis split.simps(2))
  then have "resolve p = rev (foldl (normalizeStep False) [] (split (CHR ''/'') (tl p)))"
    by (simp add: resolve_def)
  also have "\<dots> = split (CHR ''/'') (tl p)"
    using foldl_normalizeStep_segments [OF plainPath_segments [OF pl], of False "[]"] by simp
  finally show "resolve p = split (CHR ''/'') (tl p)" .
  then show "resolve p \<noteq> []" by simp
qed

text \<open>
  The paths that \<open>rmDeep\<close> makes for the entries of a directory are again absolute paths
  in normal form.
\<close>

lemma absoluteNormalForm_entry:
  assumes "absoluteNormalForm folder" and "segmentName k"
  shows "path_join [folder, k] = folder @ ''/'' @ k"
    and "absoluteNormalForm (path_join [folder, k])"
proof -
  have f: "folder \<noteq> []" "hd folder = CHR ''/''" "plainPath (tl folder)"
    using assms(1) by (simp_all add: absoluteNormalForm_def)
  have fe: "folder = CHR ''/'' # tl folder"
    using f(1,2) by (cases folder) simp_all
  have sp: "split (CHR ''/'') folder = [] # split (CHR ''/'') (tl folder)"
    using fe by (metis split.simps(2))
  have S: "foldl (normalizeStep (hd folder \<noteq> CHR ''/'')) [] (split (CHR ''/'') folder)
             = rev (split (CHR ''/'') (tl folder))"
    unfolding sp
    using foldl_normalizeStep_segments [OF plainPath_segments [OF f(3)], of "hd folder \<noteq> CHR ''/''" "[]"]
    by simp
  have j: "join ''/'' (split (CHR ''/'') (tl folder)) = tl folder"
    by (rule join_split)
  have "path_join [folder, k] = normalize (folder @ CHR ''/'' # k)"
    using f(1) assms(2) by (simp add: path_join_def segmentName_def)
  also have "\<dots> = (''/'' @ tl folder @ ''/'') @ k"
    using normalize_plain [OF f(1) segmentName_plainPath [OF assms(2)]] f(2)
    unfolding S by (simp add: j)
  also have "\<dots> = folder @ ''/'' @ k"
    using fe by (metis append_Cons append_Nil append_assoc)
  finally show e: "path_join [folder, k] = folder @ ''/'' @ k" .
  have "split (CHR ''/'') (tl folder @ CHR ''/'' # k) = split (CHR ''/'') (tl folder) @ [k]"
    using assms(2) by (simp add: split_append split_no_sep segmentName_def)
  then have "plainPath (tl folder @ CHR ''/'' # k)"
    using f(3) assms(2) by (simp add: plainPath_def)
  moreover have "tl (folder @ ''/'' @ k) = tl folder @ CHR ''/'' # k"
    using f(1) by simp
  ultimately show "absoluteNormalForm (path_join [folder, k])"
    unfolding e using f(1,2) by (simp add: absoluteNormalForm_def)
qed

lemma rmdirSync_emptied:
  assumes "folder \<noteq> []" and "resolve folder \<noteq> []" and "lookup tr (resolve folder) = Some (Dir es)"
  shows "rmdirSync (modify (resolve folder) (\<lambda>es. []) tr) folder =
           Inr (modify (butlast (resolve folder)) (AList.delete (last (resolve folder))) tr)"
proof -
  let ?p = "resolve folder"
  have l1: "lookup (modify ?p (\<lambda>es. []) tr) ?p = Some (Dir [])"
    using lookup_modify [OF assms(3), of "\<lambda>es. []"] by simp
  have "?p = butlast ?p @ [last ?p]"
    using assms(2) by simp
  then have "modify (butlast ?p) (AList.delete (last ?p)) (modify ?p (\<lambda>es. []) tr)
               = modify (butlast ?p) (AList.delete (last ?p)) tr"
    using modify_delete_below [of "butlast ?p" "last ?p" "\<lambda>es. []" tr] by simp
  then show ?thesis
    using assms(1,2) l1 by (simp add: rmdirSync_def)
qed

lemma rmDeep_forEach_directory:
  assumes "wellFormed tr" and "folder \<noteq> []"
    and "lookup tr (resolve folder) = Some (Dir es)" and "height (Dir es) \<le> Suc n"
  shows "rmDeep_forEach n folder (map fst es) tr = Some (None, modify (resolve folder) (\<lambda>es. []) tr)"
proof -
  have hs: "\<forall>e \<in> set es. height (snd e) \<le> n"
  proof
    fix e assume "e \<in> set es"
    then have "(fst e, snd e) \<in> set es" by simp
    then have "height (snd e) < height (Dir es)" by (rule height_child)
    with assms(4) show "height (snd e) \<le> n" by simp
  qed
  show ?thesis
    using rmDeep_removes assms(1,2,3) hs by (rule rmDeep_forEach_empties)
qed

text \<open>
  C7, for a path that is absolute and in normal form, as the root folder of a runner and
  every path \<open>rmDeep\<close> makes from it are. On a path that does not exist \<open>rmDeep\<close>
  returns without error and leaves the tree as it is. On a directory of a well-formed
  tree, given the nesting its height asks for, the loop over the entries returns with the
  directory emptied and the rest of the tree untouched; \<^verbatim>\<open>rmdirSync\<close> then removes the
  empty directory, so \<open>rmDeep\<close> returns without error the tree without that directory,
  where the path resolves to nothing. And on any tree, when \<open>rmDeep\<close> returns without
  error from a path that exists, the loop has returned before with a tree where the path
  is a directory without entries, the one \<^verbatim>\<open>rmdirSync\<close> removed.
\<close>

theorem rmDeep_depth_first:
  assumes "absoluteNormalForm folder"
  shows "(\<not> existsSync tr folder \<longrightarrow> rmDeep (Suc n) folder tr = Some (None, tr))
   \<and> (wellFormed tr \<and> lookup tr (resolve folder) = Some (Dir es) \<and> height (Dir es) \<le> Suc n \<longrightarrow>
        rmDeep_forEach n folder (map fst es) tr = Some (None, modify (resolve folder) (\<lambda>es. []) tr)
        \<and> rmdirSync (modify (resolve folder) (\<lambda>es. []) tr) folder =
             Inr (modify (butlast (resolve folder)) (AList.delete (last (resolve folder))) tr)
        \<and> rmDeep (Suc n) folder tr =
             Some (None, modify (butlast (resolve folder)) (AList.delete (last (resolve folder))) tr)
        \<and> lookup (modify (butlast (resolve folder)) (AList.delete (last (resolve folder))) tr)
             (resolve folder) = None)
   \<and> (existsSync tr folder \<and> rmDeep (Suc n) folder tr = Some (None, tr') \<longrightarrow>
        (\<exists>files tr1. readdirSync tr folder = Inr files
            \<and> rmDeep_forEach n folder files tr = Some (None, tr1)
            \<and> lookup tr1 (resolve folder) = Some (Dir [])
            \<and> rmdirSync tr1 folder = Inr tr'))"
proof (intro conjI impI)
  assume "\<not> existsSync tr folder"
  then show "rmDeep (Suc n) folder tr = Some (None, tr)" by (rule rmDeep_absent)
next
  assume a: "wellFormed tr \<and> lookup tr (resolve folder) = Some (Dir es) \<and> height (Dir es) \<le> Suc n"
  then have w: "wellFormed tr"
    and l: "lookup tr (resolve folder) = Some (Dir es)" and h: "height (Dir es) \<le> Suc n"
    by blast+
  have f: "folder \<noteq> []" and r: "resolve folder \<noteq> []"
    using absoluteNormalForm_resolve [OF assms] by blast+
  show "rmDeep_forEach n folder (map fst es) tr = Some (None, modify (resolve folder) (\<lambda>es. []) tr)"
    using w f l h by (rule rmDeep_forEach_directory)
  show "rmdirSync (modify (resolve folder) (\<lambda>es. []) tr) folder =
             Inr (modify (butlast (resolve folder)) (AList.delete (last (resolve folder))) tr)"
    using f r l by (rule rmdirSync_emptied)
  show "rmDeep (Suc n) folder tr =
             Some (None, modify (butlast (resolve folder)) (AList.delete (last (resolve folder))) tr)"
    using w f r l h by (rule rmDeep_removes)
  show "lookup (modify (butlast (resolve folder)) (AList.delete (last (resolve folder))) tr)
             (resolve folder) = None"
    using r l by (rule lookup_removed)
next
  assume "existsSync tr folder \<and> rmDeep (Suc n) folder tr = Some (None, tr')"
  then have "existsSync tr folder" and "rmDeep (Suc n) folder tr = Some (None, tr')"
    by blast+
  then show "\<exists>files tr1. readdirSync tr folder = Inr files
            \<and> rmDeep_forEach n folder files tr = Some (None, tr1)
            \<and> lookup tr1 (resolve folder) = Some (Dir [])
            \<and> rmdirSync tr1 folder = Inr tr'"
    by (rule rmDeep_removed_empty)
qed

lemma tree0_facts:
  "wellFormed tree0"
  "\<not> existsSync tree0 ''/tmp/psk_zzzzzz''"
  "resolve ''/tmp/psk_a1b2c3'' = [''tmp'', ''psk_a1b2c3'']"
  "lookup tree0 (resolve ''/tmp/psk_a1b2c3'') =
     Some (Dir ((''conf'', Dir [(''ledger'', File ''{}'')])
                # [(''nodes'', Dir [(''local'', Dir [(''constitution.js'', File ''$$.swarms.describe()''),
                                                    (''outbound'', Dir [])])])]))"
  "height (Dir ((''conf'', Dir [(''ledger'', File ''{}'')])
                # [(''nodes'', Dir [(''local'', Dir [(''constitution.js'', File ''$$.swarms.describe()''),
                                                    (''outbound'', Dir [])])])]))
     \<le> Suc (Suc (Suc (Suc 0)))"
  "modify (resolve ''/tmp/psk_a1b2c3'') (\<lambda>es. []) tree0 =
     Dir [(''tmp'', Dir [(''psk_a1b2c3'', Dir []), (''keep.txt'', File ''x'')])]"
  "modify (butlast (resolve ''/tmp/psk_a1b2c3'')) (AList.delete (last (resolve ''/tmp/psk_a1b2c3''))) tree0 =
     Dir [(''tmp'', Dir [(''keep.txt'', File ''x'')])]"
  "absoluteNormalForm ''/tmp/psk_zzzzzz''"
  "absoluteNormalForm ''/tmp/psk_a1b2c3''"
  "existsSync tree0 ''/tmp/psk_a1b2c3''"
  by code_simp+

theorem rmDeep_depth_first_witness:
  "absoluteNormalForm ''/tmp/psk_zzzzzz'' \<and> absoluteNormalForm ''/tmp/psk_a1b2c3''
   \<and> \<not> existsSync tree0 ''/tmp/psk_zzzzzz''
   \<and> rmDeep (Suc 0) ''/tmp/psk_zzzzzz'' tree0 = Some (None, tree0)
   \<and> wellFormed tree0
   \<and> existsSync tree0 ''/tmp/psk_a1b2c3''
   \<and> lookup tree0 (resolve ''/tmp/psk_a1b2c3'') =
        Some (Dir ((''conf'', Dir [(''ledger'', File ''{}'')])
                # [(''nodes'', Dir [(''local'', Dir [(''constitution.js'', File ''$$.swarms.describe()''),
                                                    (''outbound'', Dir [])])])]))
   \<and> rmDeep_forEach (Suc (Suc (Suc 0))) ''/tmp/psk_a1b2c3'' [''conf'', ''nodes''] tree0 =
        Some (None, Dir [(''tmp'', Dir [(''psk_a1b2c3'', Dir []), (''keep.txt'', File ''x'')])])
   \<and> rmdirSync (Dir [(''tmp'', Dir [(''psk_a1b2c3'', Dir []), (''keep.txt'', File ''x'')])])
        ''/tmp/psk_a1b2c3'' = Inr (Dir [(''tmp'', Dir [(''keep.txt'', File ''x'')])])
   \<and> rmDeep (Suc (Suc (Suc (Suc 0)))) ''/tmp/psk_a1b2c3'' tree0 =
        Some (None, Dir [(''tmp'', Dir [(''keep.txt'', File ''x'')])])
   \<and> lookup (Dir [(''tmp'', Dir [(''keep.txt'', File ''x'')])]) (resolve ''/tmp/psk_a1b2c3'') = None
   \<and> (\<exists>files tr1. readdirSync tree0 ''/tmp/psk_a1b2c3'' = Inr files
          \<and> rmDeep_forEach (Suc (Suc (Suc 0))) ''/tmp/psk_a1b2c3'' files tree0 = Some (None, tr1)
          \<and> lookup tr1 (resolve ''/tmp/psk_a1b2c3'') = Some (Dir [])
          \<and> rmdirSync tr1 ''/tmp/psk_a1b2c3'' = Inr (Dir [(''tmp'', Dir [(''keep.txt'', File ''x'')])]))"
proof -
  note absent = rmDeep_depth_first [OF tree0_facts(8), where tr = tree0 and n = 0]
  note present = rmDeep_depth_first [OF tree0_facts(9), where tr = tree0
      and n = "Suc (Suc (Suc 0))"
      and es = "[(''conf'', Dir [(''ledger'', File ''{}'')]),
        (''nodes'', Dir [(''local'', Dir [(''constitution.js'', File ''$$.swarms.describe()''),
                                          (''outbound'', Dir [])])])]"
      and tr' = "Dir [(''tmp'', Dir [(''keep.txt'', File ''x'')])]"]
  have 1: "rmDeep (Suc 0) ''/tmp/psk_zzzzzz'' tree0 = Some (None, tree0)"
    using absent tree0_facts(2) by blast
  have 2: "rmDeep_forEach (Suc (Suc (Suc 0))) ''/tmp/psk_a1b2c3''
             (map fst [(''conf'', Dir [(''ledger'', File ''{}'')]),
        (''nodes'', Dir [(''local'', Dir [(''constitution.js'', File ''$$.swarms.describe()''),
                                          (''outbound'', Dir [])])])]) tree0 =
           Some (None, modify (resolve ''/tmp/psk_a1b2c3'') (\<lambda>es. []) tree0)"
    and 3: "rmDeep (Suc (Suc (Suc (Suc 0)))) ''/tmp/psk_a1b2c3'' tree0 =
           Some (None, modify (butlast (resolve ''/tmp/psk_a1b2c3''))
                         (AList.delete (last (resolve ''/tmp/psk_a1b2c3''))) tree0)"
    and 4: "lookup (modify (butlast (resolve ''/tmp/psk_a1b2c3''))
                         (AList.delete (last (resolve ''/tmp/psk_a1b2c3''))) tree0)
              (resolve ''/tmp/psk_a1b2c3'') = None"
    and 5: "rmdirSync (modify (resolve ''/tmp/psk_a1b2c3'') (\<lambda>es. []) tree0) ''/tmp/psk_a1b2c3'' =
           Inr (modify (butlast (resolve ''/tmp/psk_a1b2c3''))
                         (AList.delete (last (resolve ''/tmp/psk_a1b2c3''))) tree0)"
    using present tree0_facts(1,4,5) by blast+
  have 6: "\<exists>files tr1. readdirSync tree0 ''/tmp/psk_a1b2c3'' = Inr files
          \<and> rmDeep_forEach (Suc (Suc (Suc 0))) ''/tmp/psk_a1b2c3'' files tree0 = Some (None, tr1)
          \<and> lookup tr1 (resolve ''/tmp/psk_a1b2c3'') = Some (Dir [])
          \<and> rmdirSync tr1 ''/tmp/psk_a1b2c3'' = Inr (Dir [(''tmp'', Dir [(''keep.txt'', File ''x'')])])"
    using present 3 tree0_facts(7,10) by simp
  show ?thesis
    using 1 2 3 4 5 6 tree0_facts by simp
qed

section \<open>The cleanup of tearDown\<close>

text \<open>
  The cleanup returns when \<open>rmDeep\<close> is given the nesting the tree asks for: the root
  folder, an absolute path in normal form, is removed, and the process exits when an exit
  status was given. When the root folder is not there, the cleanup changes nothing in the
  tree.
\<close>

lemma tearDownCleanup_removes:
  assumes "wellFormed (fs w)" and "absoluteNormalForm (rootFolder t)"
    and "lookup (fs w) (resolve (rootFolder t)) = Some (Dir es)" and "height (Dir es) \<le> depth"
  shows "tearDownCleanup depth exitStatus (t, w) =
           Some (t, w\<lparr>fs := modify (butlast (resolve (rootFolder t)))
                              (AList.delete (last (resolve (rootFolder t)))) (fs w),
                      exited := (case exitStatus of None \<Rightarrow> exited w | Some st \<Rightarrow> Some st)\<rparr>)"
  using rmDeep_removes [OF assms(1) absoluteNormalForm_resolve(1,3) [OF assms(2)] assms(3,4)]
  by (simp add: tearDownCleanup_def)

lemma tearDownCleanup_absent:
  assumes "\<not> existsSync (fs w) (rootFolder t)"
  shows "tearDownCleanup (Suc depth) exitStatus (t, w) =
           Some (t, w\<lparr>exited := (case exitStatus of None \<Rightarrow> exited w | Some st \<Rightarrow> Some st)\<rparr>)"
  using assms by (simp add: tearDownCleanup_def)

end
